theory Spec2Isabelle
  imports Main "HOL-Library.AList" "HOL-Library.Word"
begin

section \<open>Data model of the design state (src/state/schema.js)\<close>

text \<open>
  A plain JavaScript object used as a dictionary is an association list: the keys are
  unique, a new key is added at the end, an assignment to an existing key keeps its
  place, and \<open>Object.entries\<close> walks the list front to back. Lookup is \<open>map_of\<close>,
  assignment is \<open>AList.update\<close>, the \<open>delete\<close> operator is \<open>AList.delete\<close>.
  Identifiers, selectors and style values are \<open>string\<close>s; the text content of an
  element is a list of UTF-16 code units, because \<open>String.fromCharCode\<close> produces
  code units up to 0xFFFF. Keys inherited from \<open>Object.prototype\<close> are not modelled.
\<close>

type_synonym 'v obj = "(string \<times> 'v) list"

type_synonym utf16 = "16 word list"

record element =
  elem_id :: string
  tag :: string
  classes :: "string list"
  attributes :: "string obj"
  textContent :: "utf16 option"
  children :: "string list"
  parentId :: "string option"
  pageId :: string

record viewport =
  device :: string
  width :: int
  height :: int

text \<open>\<open>activePageId\<close> and \<open>rootId\<close> are optional in the model only because \<open>deletePage\<close>
  assigns \<open>Object.keys(pages)[0]\<close> and \<open>clonePage\<close> assigns \<open>idMap.get(sourcePage.rootId)\<close>,
  which can be \<open>undefined\<close>; the schema accepts neither.\<close>

record project =
  name :: string
  activePageId :: "string option"
  viewport :: viewport
  designType :: string

record page =
  page_id :: string
  page_name :: string
  rootId :: "string option"
  page_styles :: "(string obj) obj"

record design_state =
  project :: project
  pages :: "page obj"
  elements :: "element obj"
  styles :: "(string obj) obj"
  designTokens :: "(string obj) obj"


definition createDefaultState :: design_state where
  "createDefaultState =
     \<lparr>project = \<lparr>name = ''Untitled Design'', activePageId = Some ''page-1'',
                  viewport = \<lparr>device = ''desktop'', width = 1440, height = 900\<rparr>,
                  designType = ''responsive-web''\<rparr>,
      pages = [(''page-1'', \<lparr>page_id = ''page-1'', page_name = ''Home'', rootId = Some ''root-1'',
                              page_styles = []\<rparr>)],
      elements = [(''root-1'', \<lparr>elem_id = ''root-1'', tag = ''div'', classes = [''page-root''],
                                 attributes = [], textContent = None, children = [],
                                 parentId = None, pageId = ''page-1''\<rparr>)],
      styles = [(''.page-root'', [(''min-height'', ''100vh''), (''position'', ''relative'')])],
      designTokens = [(''colors'', []), (''fonts'', []), (''spacing'', [])]\<rparr>"

section \<open>The state manager (src/state/manager.js)\<close>

text \<open>The dirty record of the manager: the project file, the styles file, the set of
  pages to rewrite and the set of page files to remove.\<close>

record dirty =
  d_project :: bool
  d_styles :: bool
  d_pages :: "string set"
  d_deletedPages :: "string set"

text \<open>The changes object of \<open>updateElement\<close>: a field is present when the argument was.\<close>

record changes =
  ch_tag :: "string option"
  ch_classes :: "string list option"
  ch_attributes :: "string obj option"
  ch_textContent :: "utf16 option option"

text \<open>The payloads of the \<open>delta\<close> events, one constructor per event type.\<close>

datatype delta =
    ElementCreated element string "int option"
  | ElementUpdated string changes
  | ElementDeleted string string
  | ElementMoved string string string "int option"
  | DesignFull design_state
  | PageCreated page element
  | PageDeleted string "string option"
  | PageRenamed string string
  | PageActivated string
  | StylesSet string "string obj"
  | StylesBatch "(string obj) obj"
  | StylesDeleted string
  | TokensSet string "string obj"
  | ProjectDesignType string
  | ViewportSet viewport

text \<open>The manager: its state, its dirty record, and the events emitted so far, oldest
  first (\<open>this.emit('delta', ...)\<close> appends one).\<close>

record manager =
  state :: design_state
  dirty :: dirty
  emitted :: "delta list"

text \<open>Every \<open>throw new Error(...)\<close> of the manager is one of two kinds: the messages
  ending in "not found" are \<open>NotFound\<close>; "Cannot delete root element", "Cannot move root
  element" and "Cannot delete the last page" are \<open>InvalidOperation\<close>.\<close>

datatype error = NotFound | InvalidOperation

definition emit :: "delta \<Rightarrow> manager \<Rightarrow> manager" where
  "emit d m = m\<lparr>emitted := emitted m @ [d]\<rparr>"

definition mark_page :: "string \<Rightarrow> manager \<Rightarrow> manager" where
  "mark_page pg m = m\<lparr>dirty := (dirty m)\<lparr>d_pages := insert pg (d_pages (dirty m))\<rparr>\<rparr>"

definition mark_project :: "manager \<Rightarrow> manager" where
  "mark_project m = m\<lparr>dirty := (dirty m)\<lparr>d_project := True\<rparr>\<rparr>"

definition mark_styles :: "manager \<Rightarrow> manager" where
  "mark_styles m = m\<lparr>dirty := (dirty m)\<lparr>d_styles := True\<rparr>\<rparr>"

definition mark_deleted :: "string \<Rightarrow> manager \<Rightarrow> manager" where
  "mark_deleted pg m =
     m\<lparr>dirty := (dirty m)\<lparr>d_deletedPages := insert pg (d_deletedPages (dirty m))\<rparr>\<rparr>"

definition set_elements :: "element obj \<Rightarrow> manager \<Rightarrow> manager" where
  "set_elements els m = m\<lparr>state := (state m)\<lparr>elements := els\<rparr>\<rparr>"

definition clearDirty :: "manager \<Rightarrow> manager" where
  "clearDirty m =
     m\<lparr>dirty := \<lparr>d_project = False, d_styles = False, d_pages = {}, d_deletedPages = {}\<rparr>\<rparr>"

definition isDirty :: "manager \<Rightarrow> bool" where
  "isDirty m \<longleftrightarrow> d_project (dirty m) \<or> d_styles (dirty m) \<or> d_pages (dirty m) \<noteq> {}
                 \<or> d_deletedPages (dirty m) \<noteq> {}"

text \<open>In-place mutation of the object stored under a key (\<open>obj[k].field = ...\<close>): the
  object keeps its place; nothing happens when the key is absent.\<close>

definition modify :: "string \<Rightarrow> ('v \<Rightarrow> 'v) \<Rightarrow> 'v obj \<Rightarrow> 'v obj" where
  "modify k f al = map (\<lambda>(k', v). if k' = k then (k', f v) else (k', v)) al"

text \<open>Object spread \<open>{...a, ...b}\<close>: the entries of \<open>a\<close>, then each entry of \<open>b\<close>
  assigned in turn.\<close>

definition spread :: "'v obj \<Rightarrow> 'v obj \<Rightarrow> 'v obj" where
  "spread a b = fold (\<lambda>(k, v). AList.update k v) b a"

text \<open>\<open>Array.prototype.splice(start, 0, x)\<close>: a negative start counts from the end and
  is clamped at 0, a start beyond the length is clamped at the length.\<close>

definition splice :: "int \<Rightarrow> 'a \<Rightarrow> 'a list \<Rightarrow> 'a list" where
  "splice start x xs =
     (let len = int (length xs);
          k = (if start < 0 then max (len + start) 0 else min start len)
      in take (nat k) xs @ [x] @ drop (nat k) xs)"

subsection \<open>decodeUnicodeEscapes\<close>

text \<open>A text argument is \<open>undefined\<close>, \<open>null\<close> or a string.\<close>

datatype text_arg = Undefined | Null | Str utf16

definition isHexDigit :: "16 word \<Rightarrow> bool" where
  "isHexDigit c \<longleftrightarrow> (0x30 \<le> c \<and> c \<le> 0x39) \<or> (0x41 \<le> c \<and> c \<le> 0x46) \<or> (0x61 \<le> c \<and> c \<le> 0x66)"

definition hexValue :: "16 word \<Rightarrow> 16 word" where
  "hexValue c = (if c \<le> 0x39 then c - 0x30 else if c \<le> 0x46 then c - 0x37 else c - 0x57)"

text \<open>\<open>String.fromCharCode(parseInt(hex, 16))\<close> for four hexadecimal digits.\<close>

definition fromHex4 :: "16 word \<Rightarrow> 16 word \<Rightarrow> 16 word \<Rightarrow> 16 word \<Rightarrow> 16 word" where
  "fromHex4 a b c d = ((hexValue a * 16 + hexValue b) * 16 + hexValue c) * 16 + hexValue d"

text \<open>\<open>str.replace(/\\u([0-9a-fA-F]{4})/g, ...)\<close>: scan from the left; where a backslash,
  a \<open>u\<close> and four hexadecimal digits stand, emit the code unit and go on after them;
  elsewhere copy one code unit.\<close>

fun replaceEscapes :: "utf16 \<Rightarrow> utf16" where
  "replaceEscapes (b # u # h1 # h2 # h3 # h4 # rest) =
     (if b = 0x5C \<and> u = 0x75 \<and> isHexDigit h1 \<and> isHexDigit h2 \<and> isHexDigit h3 \<and> isHexDigit h4
      then fromHex4 h1 h2 h3 h4 # replaceEscapes rest
      else b # replaceEscapes (u # h1 # h2 # h3 # h4 # rest))"
| "replaceEscapes (c # cs) = c # replaceEscapes cs"
| "replaceEscapes [] = []"

text \<open>\<open>str.includes(p)\<close>.\<close>

fun str_includes :: "'a list \<Rightarrow> 'a list \<Rightarrow> bool" where
  "str_includes [] p = (p = [])"
| "str_includes (x # xs) p = (take (length p) (x # xs) = p \<or> str_includes xs p)"

definition decodeUnicodeEscapes :: "text_arg \<Rightarrow> text_arg" where
  "decodeUnicodeEscapes a =
     (case a of
        Undefined \<Rightarrow> Undefined
      | Null \<Rightarrow> Null
      | Str s \<Rightarrow> if s = [] \<or> \<not> str_includes s [0x5C, 0x75] then Str s else Str (replaceEscapes s))"

text \<open>\<open>x || null\<close> on a text value: \<open>undefined\<close>, \<open>null\<close> and the empty string are falsy.\<close>

definition or_null :: "text_arg \<Rightarrow> utf16 option" where
  "or_null a = (case a of Str s \<Rightarrow> if s = [] then None else Some s | _ \<Rightarrow> None)"

subsection \<open>Element operations\<close>

record create_args =
  c_tag :: string
  c_parentId :: string
  c_classes :: "string list option"
  c_attributes :: "string obj option"
  c_textContent :: text_arg
  c_insertIndex :: "int option"

text \<open>\<open>createElement\<close>; \<open>newId\<close> is what \<open>generateId()\<close> returns. The children of the
  parent are changed through the reference read at the start, which the map still holds
  unless the new element was stored under the parent's own key.\<close>

definition createElement :: "string \<Rightarrow> create_args \<Rightarrow> manager \<Rightarrow> (error + element) \<times> manager" where
  "createElement newId a m =
     (case map_of (elements (state m)) (c_parentId a) of
        None \<Rightarrow> (Inl NotFound, m)
      | Some parent \<Rightarrow>
          let el = \<lparr>elem_id = newId, tag = c_tag a,
                    classes = (case c_classes a of None \<Rightarrow> [] | Some cs \<Rightarrow> cs),
                    attributes = (case c_attributes a of None \<Rightarrow> [] | Some at \<Rightarrow> at),
                    textContent = or_null (decodeUnicodeEscapes (c_textContent a)),
                    children = [], parentId = Some (c_parentId a), pageId = pageId parent\<rparr>;
              els1 = AList.update newId el (elements (state m));
              ins = (\<lambda>cs. case c_insertIndex a of
                            Some i \<Rightarrow> splice i newId cs
                          | None \<Rightarrow> cs @ [newId]);
              els2 = (if newId = c_parentId a then els1
                      else modify (c_parentId a) (\<lambda>p. p\<lparr>children := ins (children p)\<rparr>) els1)
          in (Inr el,
              emit (ElementCreated el (c_parentId a) (c_insertIndex a))
                (mark_page (pageId parent) (set_elements els2 m))))"

record update_args =
  u_id :: string
  u_tag :: "string option"
  u_classes :: "string list option"
  u_attributes :: "string obj option"
  u_textContent :: text_arg

text \<open>The text stored by \<open>updateElement\<close> when the argument is not \<open>undefined\<close>.\<close>

definition text_value :: "text_arg \<Rightarrow> utf16 option" where
  "text_value a = (case a of Str s \<Rightarrow> Some s | _ \<Rightarrow> None)"

definition updateElement :: "update_args \<Rightarrow> manager \<Rightarrow> (error + element) \<times> manager" where
  "updateElement a m =
     (case map_of (elements (state m)) (u_id a) of
        None \<Rightarrow> (Inl NotFound, m)
      | Some el \<Rightarrow>
          let e1 = (case u_tag a of None \<Rightarrow> el | Some t \<Rightarrow> el\<lparr>tag := t\<rparr>);
              e2 = (case u_classes a of None \<Rightarrow> e1 | Some cs \<Rightarrow> e1\<lparr>classes := cs\<rparr>);
              e3 = (case u_attributes a of None \<Rightarrow> e2
                    | Some at \<Rightarrow> e2\<lparr>attributes := spread (attributes e2) at\<rparr>);
              e4 = (if u_textContent a = Undefined then e3
                    else e3\<lparr>textContent := text_value (decodeUnicodeEscapes (u_textContent a))\<rparr>);
              ch = \<lparr>ch_tag = u_tag a, ch_classes = u_classes a,
                    ch_attributes = (case u_attributes a of None \<Rightarrow> None
                                     | Some at \<Rightarrow> Some (attributes e4)),
                    ch_textContent = (if u_textContent a = Undefined then None
                                      else Some (textContent e4))\<rparr>
          in (Inr e4,
              emit (ElementUpdated (u_id a) ch)
                (mark_page (pageId el) (set_elements (modify (u_id a) (\<lambda>_. e4) (elements (state m))) m))))"

text \<open>\<open>!element.parentId\<close>: \<open>null\<close> and the empty string are falsy.\<close>

definition noParent :: "string option \<Rightarrow> bool" where
  "noParent p \<longleftrightarrow> (case p of None \<Rightarrow> True | Some s \<Rightarrow> s = [])"

text \<open>\<open>_deleteRecursive\<close>. The recursion follows the children lists, which a malformed
  state may close into a cycle; then the JavaScript recursion never returns normally.
  The first argument bounds the depth of the recursion, and \<open>None\<close> says that the
  bound was reached.\<close>

fun deleteRecursive :: "nat \<Rightarrow> string \<Rightarrow> element obj \<Rightarrow> element obj option" where
  "deleteRecursive 0 i els = None"
| "deleteRecursive (Suc n) i els =
     (case map_of els i of
        None \<Rightarrow> Some els
      | Some el \<Rightarrow>
          (case fold (\<lambda>c r. case r of None \<Rightarrow> None | Some els' \<Rightarrow> deleteRecursive n c els')
                     (children el) (Some els) of
             None \<Rightarrow> None
           | Some els' \<Rightarrow> Some (AList.delete i els')))"

definition deleteElement :: "nat \<Rightarrow> string \<Rightarrow> manager \<Rightarrow> ((error + unit) \<times> manager) option" where
  "deleteElement fuel i m =
     (case map_of (elements (state m)) i of
        None \<Rightarrow> Some (Inl NotFound, m)
      | Some el \<Rightarrow>
          if noParent (parentId el) then Some (Inl InvalidOperation, m)
          else
            (case deleteRecursive fuel i (elements (state m)) of
               None \<Rightarrow> None
             | Some els1 \<Rightarrow>
                 let p = (case parentId el of Some p \<Rightarrow> p | None \<Rightarrow> []);
                     els2 = modify p (\<lambda>pe. pe\<lparr>children := filter (\<lambda>c. c \<noteq> i) (children pe)\<rparr>) els1
                 in Some (Inr (),
                          emit (ElementDeleted i p) (mark_page (pageId el) (set_elements els2 m)))))"

text \<open>\<open>_updatePageId\<close>, with the same bound on the depth of the recursion.\<close>

fun updatePageId :: "nat \<Rightarrow> string \<Rightarrow> string \<Rightarrow> element obj \<Rightarrow> element obj option" where
  "updatePageId 0 i pg els = None"
| "updatePageId (Suc n) i pg els =
     (case map_of els i of
        None \<Rightarrow> Some els
      | Some el \<Rightarrow>
          fold (\<lambda>c r. case r of None \<Rightarrow> None | Some els' \<Rightarrow> updatePageId n c pg els')
               (children el) (Some (modify i (\<lambda>e. e\<lparr>pageId := pg\<rparr>) els)))"

record move_args =
  mv_id :: string
  mv_newParentId :: string
  mv_insertIndex :: "int option"

text \<open>\<open>moveElement\<close>. The three objects \<open>element\<close>, \<open>oldParent\<close> and \<open>newParent\<close> may be
  one and the same; each assignment goes to the object under its key, so a later step
  sees what an earlier one wrote.\<close>

definition moveElement :: "nat \<Rightarrow> move_args \<Rightarrow> manager \<Rightarrow> ((error + element) \<times> manager) option" where
  "moveElement fuel a m =
     (case map_of (elements (state m)) (mv_id a) of
        None \<Rightarrow> Some (Inl NotFound, m)
      | Some el \<Rightarrow>
          if noParent (parentId el) then Some (Inl InvalidOperation, m)
          else
            (case map_of (elements (state m)) (mv_newParentId a) of
               None \<Rightarrow> Some (Inl NotFound, m)
             | Some newParent \<Rightarrow>
                 let oldParentId = (case parentId el of Some p \<Rightarrow> p | None \<Rightarrow> []);
                     els1 = modify oldParentId
                              (\<lambda>pe. pe\<lparr>children := filter (\<lambda>c. c \<noteq> mv_id a) (children pe)\<rparr>)
                              (elements (state m));
                     els2 = modify (mv_id a) (\<lambda>e. e\<lparr>parentId := Some (mv_newParentId a)\<rparr>) els1;
                     ins = (\<lambda>cs. case mv_insertIndex a of
                                   Some i \<Rightarrow> splice i (mv_id a) cs
                                 | None \<Rightarrow> cs @ [mv_id a]);
                     els3 = modify (mv_newParentId a) (\<lambda>p. p\<lparr>children := ins (children p)\<rparr>) els2;
                     oldPageId = pageId el;
                     crossing = (oldPageId \<noteq> pageId newParent);
                     els4 = (if crossing then updatePageId fuel (mv_id a) (pageId newParent) els3
                             else Some els3)
                 in (case els4 of
                       None \<Rightarrow> None
                     | Some els5 \<Rightarrow>
                         let m1 = mark_page oldPageId (set_elements els5 m);
                             m2 = (if crossing then mark_page (pageId newParent) m1 else m1);
                             res = (case map_of els5 (mv_id a) of Some e \<Rightarrow> e | None \<Rightarrow> el)
                         in Some (Inr res,
                                  emit (ElementMoved (mv_id a) oldParentId (mv_newParentId a)
                                          (mv_insertIndex a)) m2))))"

subsection \<open>Page operations\<close>

text \<open>\<open>deletePage\<close>. \<open>Object.keys(this.state.pages)[0]\<close> is the first remaining key.\<close>

definition firstKey :: "'v obj \<Rightarrow> string option" where
  "firstKey al = (case al of [] \<Rightarrow> None | (k, _) # _ \<Rightarrow> Some k)"

definition deletePage :: "string \<Rightarrow> manager \<Rightarrow> (error + unit) \<times> manager" where
  "deletePage pg m =
     (case map_of (pages (state m)) pg of
        None \<Rightarrow> (Inl NotFound, m)
      | Some page \<Rightarrow>
          if length (pages (state m)) \<le> 1 then (Inl InvalidOperation, m)
          else
            let els' = filter (\<lambda>(i, el). pageId el \<noteq> pg) (elements (state m));
                pages' = AList.delete pg (pages (state m));
                active = (activePageId (project (state m)) = Some pg);
                proj' = (if active then (project (state m))\<lparr>activePageId := firstKey pages'\<rparr>
                         else project (state m));
                newActivePageId = (if active then firstKey pages' else None);
                m1 = m\<lparr>state := (state m)\<lparr>elements := els', pages := pages', project := proj'\<rparr>\<rparr>;
                m2 = (if active then mark_project m1 else m1)
            in (Inr (), emit (PageDeleted pg newActivePageId) (mark_deleted pg m2)))"

subsection \<open>Design tokens\<close>

definition isWordChar :: "char \<Rightarrow> bool" where
  "isWordChar c \<longleftrightarrow>
     (let n = (of_char c :: nat) in (97 \<le> n \<and> n \<le> 122) \<or> (65 \<le> n \<and> n \<le> 90) \<or> (48 \<le> n \<and> n \<le> 57))"

definition isWordOrHash :: "char \<Rightarrow> bool" where
  "isWordOrHash c \<longleftrightarrow> isWordChar c \<or> c = CHR ''#''"

text \<open>The regular expression \<open>(?<![a-zA-Z0-9#])ESCAPED(?![a-zA-Z0-9])\<close>, where \<open>ESCAPED\<close>
  is the old value with every special character escaped, so that it stands for the old
  value itself. \<open>matchAt old pre rest\<close>: the expression matches at the position
  that has \<open>pre\<close> to its left and \<open>rest\<close> from it on.\<close>

definition matchAt :: "string \<Rightarrow> string \<Rightarrow> string \<Rightarrow> bool" where
  "matchAt old pre rest \<longleftrightarrow>
     (pre = [] \<or> \<not> isWordOrHash (last pre)) \<and>
     take (length old) rest = old \<and>
     (case drop (length old) rest of [] \<Rightarrow> True | c # _ \<Rightarrow> \<not> isWordChar c)"

text \<open>\<open>regex.test(val)\<close> from \<open>lastIndex = 0\<close>: some position matches.\<close>

fun hasMatch :: "string \<Rightarrow> string \<Rightarrow> string \<Rightarrow> bool" where
  "hasMatch old pre [] = matchAt old pre []"
| "hasMatch old pre (c # cs) = (matchAt old pre (c # cs) \<or> hasMatch old (pre @ [c]) cs)"

text \<open>The replacement text of \<open>String.prototype.replace\<close> for a string replacement:
  \<open>$$\<close> is a dollar sign, \<open>$&\<close> the matched text, \<open>$`\<close> the text to the left of the match and
  \<open>$'\<close> the text to its right; the expression has no groups, so every other \<open>$\<close> stands
  for itself.\<close>

fun expand :: "string \<Rightarrow> string \<Rightarrow> string \<Rightarrow> string \<Rightarrow> string" where
  "expand (a # b # t) matched pre post =
     (if a = CHR ''$'' \<and> b = CHR ''$'' then CHR ''$'' # expand t matched pre post
      else if a = CHR ''$'' \<and> b = CHR ''&'' then matched @ expand t matched pre post
      else if a = CHR ''$'' \<and> b = CHR 0x60 then pre @ expand t matched pre post
      else if a = CHR ''$'' \<and> b = CHR 0x27 then post @ expand t matched pre post
      else a # expand (b # t) matched pre post)"
| "expand t matched pre post = t"

text \<open>\<open>val.replace(regex, newValue)\<close> with the global flag: matches are taken from the
  left; past a match the scan goes on behind it, past an empty match one position
  further.\<close>

function replaceFrom :: "string \<Rightarrow> string \<Rightarrow> string \<Rightarrow> string \<Rightarrow> string" where
  "replaceFrom old new pre rest =
     (if matchAt old pre rest then
        expand new old pre (drop (length old) rest) @
          (if old = [] then
             (case rest of [] \<Rightarrow> [] | c # cs \<Rightarrow> c # replaceFrom old new (pre @ [c]) cs)
           else replaceFrom old new (pre @ old) (drop (length old) rest))
      else (case rest of [] \<Rightarrow> [] | c # cs \<Rightarrow> c # replaceFrom old new (pre @ [c]) cs))"
  by pat_completeness auto
termination
proof (relation "measure (\<lambda>(old, new, pre, rest). length rest)")
  fix old new pre rest :: string
  assume m: "matchAt old pre rest" and ne: "old \<noteq> []"
  from m have "length (take (length old) rest) = length old" by (simp add: matchAt_def)
  then have "length old \<le> length rest" by simp
  with ne show "((old, new, pre @ old, drop (length old) rest), old, new, pre, rest)
        \<in> measure (\<lambda>(old, new, pre, rest). length rest)" by (cases old) auto
qed auto

text \<open>The loop over the properties of one selector.\<close>

definition propagateProps :: "string \<Rightarrow> string \<Rightarrow> string obj \<Rightarrow> string obj" where
  "propagateProps old new props =
     map (\<lambda>(p, v). (p, if hasMatch old [] v then replaceFrom old new [] v else v)) props"

definition selectorChanged :: "string \<Rightarrow> string obj \<Rightarrow> bool" where
  "selectorChanged old props \<longleftrightarrow> list_ex (\<lambda>(p, v). hasMatch old [] v) props"

definition updateTokenWithPropagation ::
    "string \<Rightarrow> string \<Rightarrow> string \<Rightarrow> manager \<Rightarrow> (error + nat) \<times> manager" where
  "updateTokenWithPropagation category key newValue m =
     (case map_of (designTokens (state m)) category of
        None \<Rightarrow> (Inl NotFound, m)
      | Some toks \<Rightarrow>
          (case map_of toks key of
             None \<Rightarrow> (Inl NotFound, m)
           | Some oldValue \<Rightarrow>
               if oldValue = newValue then (Inr 0, m)
               else
                 let sts = styles (state m);
                     sts' = map (\<lambda>(sel, props). (sel, propagateProps oldValue newValue props)) sts;
                     changed = filter (\<lambda>(sel, props). selectorChanged oldValue props) sts;
                     updatedStyles = length changed;
                     changedSelectors =
                       map (\<lambda>(sel, props). (sel, propagateProps oldValue newValue props)) changed;
                     toks' = AList.update key newValue toks;
                     tokens' = modify category (\<lambda>_. toks') (designTokens (state m));
                     m1 = mark_project (m\<lparr>state := (state m)\<lparr>styles := sts', designTokens := tokens'\<rparr>\<rparr>);
                     m2 = emit (TokensSet category toks') m1;
                     m3 = (if updatedStyles > 0
                           then emit (StylesBatch changedSelectors) (mark_styles m2) else m2)
                 in (Inr updatedStyles, m3)))"

text \<open>\<open>this.state.designTokens[category]?.[key]\<close>.\<close>

definition tokenValue :: "design_state \<Rightarrow> string \<Rightarrow> string \<Rightarrow> string option" where
  "tokenValue s category key =
     (case map_of (designTokens s) category of None \<Rightarrow> None | Some toks \<Rightarrow> map_of toks key)"


subsection \<open>Creating a tree of elements\<close>

text \<open>A nested element definition, as \<open>createElementTree\<close> receives it.\<close>

datatype element_def =
  ElementDef (d_tag: string) (d_classes: "string list option") (d_attributes: "string obj option")
             (d_textContent: text_arg) (d_children: "element_def list")

text \<open>\<open>generateId()\<close> is taken from a supply of identifiers: the \<open>n\<close>-th call within an
  operation returns \<open>gen n\<close>. \<open>createRecursive\<close> threads the number of calls made so
  far, which is also the count of elements created.\<close>

fun createRecursive ::
    "(nat \<Rightarrow> string) \<Rightarrow> string \<Rightarrow> string \<Rightarrow> element_def list \<Rightarrow> nat \<times> element obj
       \<Rightarrow> string list \<times> nat \<times> element obj" where
  "createRecursive gen pid pg [] (n, els) = ([], n, els)"
| "createRecursive gen pid pg (ElementDef t cl at tx ch # defs) (n, els) =
     (let i = gen n;
          els1 = AList.update i
                   \<lparr>elem_id = i, tag = t,
                    classes = (case cl of None \<Rightarrow> [] | Some cs \<Rightarrow> cs),
                    attributes = (case at of None \<Rightarrow> [] | Some a \<Rightarrow> a),
                    textContent = or_null (decodeUnicodeEscapes tx),
                    children = [], parentId = Some pid, pageId = pg\<rparr> els;
          els2 = modify pid (\<lambda>p. p\<lparr>children := children p @ [i]\<rparr>) els1;
          r1 = (if ch \<noteq> [] then createRecursive gen i pg ch (Suc n, els2) else ([], Suc n, els2));
          r2 = createRecursive gen pid pg defs (snd r1)
      in (i # fst r2, snd r2))"

definition createElementTree ::
    "(nat \<Rightarrow> string) \<Rightarrow> string \<Rightarrow> element_def list \<Rightarrow> manager
       \<Rightarrow> (error + nat \<times> string list) \<times> manager" where
  "createElementTree gen parentId0 defs m =
     (case map_of (elements (state m)) parentId0 of
        None \<Rightarrow> (Inl NotFound, m)
      | Some parent \<Rightarrow>
          let r = createRecursive gen parentId0 (pageId parent) defs (0, elements (state m));
              m1 = mark_page (pageId parent) (set_elements (snd (snd r)) m)
          in (Inr (fst (snd r), fst r), emit (DesignFull (state m1)) m1))"

subsection \<open>More page operations\<close>

definition createPage :: "(nat \<Rightarrow> string) \<Rightarrow> string \<Rightarrow> manager \<Rightarrow> page \<times> manager" where
  "createPage gen nm m =
     (let pid = ''page-'' @ gen 0;
          rid = ''root-'' @ gen 1;
          pg = \<lparr>page_id = pid, page_name = nm, rootId = Some rid, page_styles = []\<rparr>;
          rootElement = \<lparr>elem_id = rid, tag = ''div'', classes = [''page-root''], attributes = [],
                         textContent = None, children = [], parentId = None, pageId = pid\<rparr>;
          m1 = m\<lparr>state := (state m)\<lparr>pages := AList.update pid pg (pages (state m)),
                                     elements := AList.update rid rootElement (elements (state m))\<rparr>\<rparr>
      in (pg, emit (PageCreated pg rootElement) (mark_page pid m1)))"

text \<open>One step of the second loop of \<open>clonePage\<close>: the copy of the element \<open>oldId\<close> is
  stored under \<open>newId\<close>. \<open>idMap.get\<close> of an unknown id is \<open>undefined\<close>, and
  \<open>filter(Boolean)\<close> drops it.\<close>

definition cloneOne :: "string obj \<Rightarrow> string \<Rightarrow> string \<times> string \<Rightarrow> element obj \<Rightarrow> element obj" where
  "cloneOne idMap pg entry els =
     (case map_of els (fst entry) of
        None \<Rightarrow> els
      | Some src \<Rightarrow>
          AList.update (snd entry)
            (src\<lparr>elem_id := snd entry,
                 parentId := (case parentId src of
                                None \<Rightarrow> None
                              | Some p \<Rightarrow> if p = [] then None else map_of idMap p),
                 children := List.map_filter
                               (\<lambda>c. case map_of idMap c of
                                      None \<Rightarrow> None
                                    | Some n \<Rightarrow> if n = [] then None else Some n)
                               (children src),
                 pageId := pg\<rparr>) els)"

definition clonePage ::
    "(nat \<Rightarrow> string) \<Rightarrow> string \<Rightarrow> string \<Rightarrow> manager \<Rightarrow> (error + page) \<times> manager" where
  "clonePage gen sourcePageId newName m =
     (case map_of (pages (state m)) sourcePageId of
        None \<Rightarrow> (Inl NotFound, m)
      | Some sourcePage \<Rightarrow>
          let pid = ''page-'' @ gen 0;
              sourceIds = map fst (filter (\<lambda>(i, el). pageId el = sourcePageId) (elements (state m)));
              idMap = map (\<lambda>(j, i). (i, if Some i = rootId sourcePage then ''root-'' @ gen (Suc j)
                                         else gen (Suc j)))
                          (enumerate 0 sourceIds);
              els' = fold (cloneOne idMap pid) idMap (elements (state m));
              pg = \<lparr>page_id = pid, page_name = newName,
                    rootId = (case rootId sourcePage of None \<Rightarrow> None | Some r \<Rightarrow> map_of idMap r),
                    page_styles = page_styles sourcePage\<rparr>;
              m1 = mark_page pid
                     (m\<lparr>state := (state m)\<lparr>elements := els',
                                             pages := AList.update pid pg (pages (state m))\<rparr>\<rparr>)
          in (Inr pg, emit (DesignFull (state m1)) m1))"

definition renamePage :: "string \<Rightarrow> string \<Rightarrow> manager \<Rightarrow> (error + page) \<times> manager" where
  "renamePage pg nm m =
     (case map_of (pages (state m)) pg of
        None \<Rightarrow> (Inl NotFound, m)
      | Some p \<Rightarrow>
          (Inr (p\<lparr>page_name := nm\<rparr>),
           emit (PageRenamed pg nm)
             (mark_page pg
                (m\<lparr>state := (state m)\<lparr>pages := modify pg (\<lambda>p. p\<lparr>page_name := nm\<rparr>)
                                                    (pages (state m))\<rparr>\<rparr>))))"

definition setActivePage :: "string \<Rightarrow> manager \<Rightarrow> (error + unit) \<times> manager" where
  "setActivePage pg m =
     (case map_of (pages (state m)) pg of
        None \<Rightarrow> (Inl NotFound, m)
      | Some p \<Rightarrow>
          (Inr (),
           emit (PageActivated pg)
             (mark_project
                (m\<lparr>state := (state m)\<lparr>project := (project (state m))\<lparr>activePageId := Some pg\<rparr>\<rparr>\<rparr>))))"

subsection \<open>Style operations\<close>

text \<open>\<open>{...(styles[selector] || {}), ...properties}\<close>.\<close>

definition mergedStyle :: "(string obj) obj \<Rightarrow> string \<Rightarrow> string obj \<Rightarrow> string obj" where
  "mergedStyle sts selector properties =
     spread (case map_of sts selector of None \<Rightarrow> [] | Some e \<Rightarrow> e) properties"

definition setStyles :: "string \<Rightarrow> string obj \<Rightarrow> manager \<Rightarrow> string obj \<times> manager" where
  "setStyles selector properties m =
     (let v = mergedStyle (styles (state m)) selector properties;
          m1 = m\<lparr>state := (state m)\<lparr>styles := AList.update selector v (styles (state m))\<rparr>\<rparr>
      in (v, emit (StylesSet selector v) (mark_styles m1)))"

definition batchSetStyles ::
    "(string \<times> string obj) list \<Rightarrow> manager \<Rightarrow> (string obj) obj \<times> manager" where
  "batchSetStyles entries m =
     (let r = fold (\<lambda>(selector, properties) (sts, res).
                      let v = mergedStyle sts selector properties
                      in (AList.update selector v sts, AList.update selector v res))
                   entries (styles (state m), []);
          m1 = m\<lparr>state := (state m)\<lparr>styles := fst r\<rparr>\<rparr>
      in (snd r, emit (StylesBatch (snd r)) (mark_styles m1)))"

definition deleteStyles :: "string \<Rightarrow> manager \<Rightarrow> (error + unit) \<times> manager" where
  "deleteStyles selector m =
     (case map_of (styles (state m)) selector of
        None \<Rightarrow> (Inl NotFound, m)
      | Some e \<Rightarrow>
          (Inr (),
           emit (StylesDeleted selector)
             (mark_styles
                (m\<lparr>state := (state m)\<lparr>styles := AList.delete selector (styles (state m))\<rparr>\<rparr>))))"

subsection \<open>Tokens, design type and viewport\<close>

definition setDesignTokens :: "string \<Rightarrow> string obj \<Rightarrow> manager \<Rightarrow> string obj \<times> manager" where
  "setDesignTokens category tokens m =
     (let dt = designTokens (state m);
          dt1 = (case map_of dt category of None \<Rightarrow> AList.update category [] dt | Some t \<Rightarrow> dt);
          dt2 = modify category (\<lambda>t. spread t tokens) dt1;
          v = (case map_of dt2 category of None \<Rightarrow> [] | Some t \<Rightarrow> t);
          m1 = m\<lparr>state := (state m)\<lparr>designTokens := dt2\<rparr>\<rparr>
      in (v, emit (TokensSet category v) (mark_project m1)))"

definition setDesignType :: "string \<Rightarrow> manager \<Rightarrow> string \<times> manager" where
  "setDesignType dt m =
     (dt, emit (ProjectDesignType dt)
            (mark_project
               (m\<lparr>state := (state m)\<lparr>project := (project (state m))\<lparr>designType := dt\<rparr>\<rparr>\<rparr>)))"

record viewport_args =
  v_device :: "string option"
  v_width :: "int option"
  v_height :: "int option"

text \<open>\<open>x || d\<close> on an optional number: \<open>undefined\<close> and 0 are falsy.\<close>

definition num_or :: "int option \<Rightarrow> int \<Rightarrow> int" where
  "num_or x d = (case x of None \<Rightarrow> d | Some n \<Rightarrow> if n = 0 then d else n)"

definition presets :: "(int \<times> int) obj" where
  "presets = [(''mobile'', (375, 812)), (''tablet'', (768, 1024)), (''desktop'', (1440, 900))]"

definition setViewport :: "viewport_args \<Rightarrow> manager \<Rightarrow> viewport \<times> manager" where
  "setViewport a m =
     (let cur = viewport (project (state m));
          dev = (case v_device a of None \<Rightarrow> [] | Some d \<Rightarrow> d);
          vp = (case (if dev = [] then None else map_of presets dev) of
                  Some (w, h) \<Rightarrow>
                    \<lparr>device = dev, width = num_or (v_width a) w, height = num_or (v_height a) h\<rparr>
                | None \<Rightarrow>
                    \<lparr>device = (if dev = [] then ''custom'' else dev),
                     width = num_or (v_width a) (width cur),
                     height = num_or (v_height a) (height cur)\<rparr>);
          m1 = m\<lparr>state := (state m)\<lparr>project := (project (state m))\<lparr>viewport := vp\<rparr>\<rparr>\<rparr>
      in (vp, emit (ViewportSet vp) (mark_project m1)))"

subsection \<open>The operations as one interface\<close>

datatype operation =
    CreateElement create_args
  | UpdateElement update_args
  | DeleteElement string
  | MoveElement move_args
  | CreateElementTree string "element_def list"
  | CreatePage string
  | ClonePage string string
  | DeletePage string
  | RenamePage string string
  | SetActivePage string
  | SetStyles string "string obj"
  | BatchSetStyles "(string \<times> string obj) list"
  | DeleteStyles string
  | SetDesignTokens string "string obj"
  | UpdateTokenWithPropagation string string string
  | SetDesignType string
  | SetViewport viewport_args

text \<open>The outcome of an operation without its return value: \<open>None\<close> when the recursion
  bound was reached, else the error, if any, and the manager after the call.\<close>

definition outcome :: "(error + 'a) \<times> manager \<Rightarrow> (error option \<times> manager) option" where
  "outcome r = Some (case fst r of Inl e \<Rightarrow> Some e | Inr _ \<Rightarrow> None, snd r)"

definition perform ::
    "nat \<Rightarrow> (nat \<Rightarrow> string) \<Rightarrow> operation \<Rightarrow> manager \<Rightarrow> (error option \<times> manager) option" where
  "perform fuel gen op m =
     (case op of
        CreateElement a \<Rightarrow> outcome (createElement (gen 0) a m)
      | UpdateElement a \<Rightarrow> outcome (updateElement a m)
      | DeleteElement i \<Rightarrow> (case deleteElement fuel i m of None \<Rightarrow> None | Some r \<Rightarrow> outcome r)
      | MoveElement a \<Rightarrow> (case moveElement fuel a m of None \<Rightarrow> None | Some r \<Rightarrow> outcome r)
      | CreateElementTree p defs \<Rightarrow> outcome (createElementTree gen p defs m)
      | CreatePage nm \<Rightarrow> Some (None, snd (createPage gen nm m))
      | ClonePage src nm \<Rightarrow> outcome (clonePage gen src nm m)
      | DeletePage pg \<Rightarrow> outcome (deletePage pg m)
      | RenamePage pg nm \<Rightarrow> outcome (renamePage pg nm m)
      | SetActivePage pg \<Rightarrow> outcome (setActivePage pg m)
      | SetStyles sel props \<Rightarrow> Some (None, snd (setStyles sel props m))
      | BatchSetStyles entries \<Rightarrow> Some (None, snd (batchSetStyles entries m))
      | DeleteStyles sel \<Rightarrow> outcome (deleteStyles sel m)
      | SetDesignTokens c toks \<Rightarrow> Some (None, snd (setDesignTokens c toks m))
      | UpdateTokenWithPropagation c k v \<Rightarrow> outcome (updateTokenWithPropagation c k v m)
      | SetDesignType dt \<Rightarrow> Some (None, snd (setDesignType dt m))
      | SetViewport a \<Rightarrow> Some (None, snd (setViewport a m)))"

text \<open>The partitions of the persisted document: the project file, the styles file, one
  file per page, and the removal of a page's file.\<close>

datatype partition = ProjectPartition | StylesPartition | PagePartition string | PageRemoval string

definition isMarked :: "partition \<Rightarrow> dirty \<Rightarrow> bool" where
  "isMarked p d =
     (case p of
        ProjectPartition \<Rightarrow> d_project d
      | StylesPartition \<Rightarrow> d_styles d
      | PagePartition pg \<Rightarrow> pg \<in> d_pages d
      | PageRemoval pg \<Rightarrow> pg \<in> d_deletedPages d)"

text \<open>The page of an element, if the element exists.\<close>

definition pageOf :: "manager \<Rightarrow> string \<Rightarrow> string" where
  "pageOf m i = (case map_of (elements (state m)) i of None \<Rightarrow> [] | Some e \<Rightarrow> pageId e)"

text \<open>The partition that owns what an operation changes.\<close>

definition owner :: "(nat \<Rightarrow> string) \<Rightarrow> operation \<Rightarrow> manager \<Rightarrow> partition" where
  "owner gen op m =
     (case op of
        CreateElement a \<Rightarrow> PagePartition (pageOf m (c_parentId a))
      | UpdateElement a \<Rightarrow> PagePartition (pageOf m (u_id a))
      | DeleteElement i \<Rightarrow> PagePartition (pageOf m i)
      | MoveElement a \<Rightarrow> PagePartition (pageOf m (mv_id a))
      | CreateElementTree p defs \<Rightarrow> PagePartition (pageOf m p)
      | CreatePage nm \<Rightarrow> PagePartition (''page-'' @ gen 0)
      | ClonePage src nm \<Rightarrow> PagePartition (''page-'' @ gen 0)
      | DeletePage pg \<Rightarrow> PageRemoval pg
      | RenamePage pg nm \<Rightarrow> PagePartition pg
      | SetActivePage pg \<Rightarrow> ProjectPartition
      | SetStyles sel props \<Rightarrow> StylesPartition
      | BatchSetStyles entries \<Rightarrow> StylesPartition
      | DeleteStyles sel \<Rightarrow> StylesPartition
      | SetDesignTokens c toks \<Rightarrow> ProjectPartition
      | UpdateTokenWithPropagation c k v \<Rightarrow> ProjectPartition
      | SetDesignType dt \<Rightarrow> ProjectPartition
      | SetViewport a \<Rightarrow> ProjectPartition)"

text \<open>The number of events an operation emits when it succeeds: one, except that
  \<open>updateTokenWithPropagation\<close> emits none when the token has the value already, and
  two when it rewrites a style.\<close>

definition deltaCount :: "operation \<Rightarrow> manager \<Rightarrow> nat" where
  "deltaCount op m =
     (case op of
        UpdateTokenWithPropagation c k v \<Rightarrow>
          (case tokenValue (state m) c k of
             None \<Rightarrow> 0
           | Some old \<Rightarrow>
               if old = v then 0
               else if list_ex (\<lambda>(sel, props). selectorChanged old props) (styles (state m)) then 2
               else 1)
      | _ \<Rightarrow> 1)"

subsection \<open>Split files\<close>














subsection \<open>Trees\<close>

text \<open>The node \<open>i\<close> and its descendants: the nodes reached from \<open>i\<close> along the children
  lists, through nodes that exist.\<close>

inductive_set subtree :: "element obj \<Rightarrow> string \<Rightarrow> string set"
  for els :: "element obj" and i :: string where
  self: "map_of els i = Some e \<Longrightarrow> i \<in> subtree els i"
| child: "k \<in> subtree els i \<Longrightarrow> map_of els k = Some e \<Longrightarrow> c \<in> set (children e) \<Longrightarrow>
          map_of els c = Some ce \<Longrightarrow> c \<in> subtree els i"

text \<open>The number of parent links from a node up to a root (a node without parent), when
  a root is reached within the given number of steps.\<close>

fun depthOf :: "nat \<Rightarrow> element obj \<Rightarrow> string \<Rightarrow> nat option" where
  "depthOf 0 els k = None"
| "depthOf (Suc n) els k =
     (case map_of els k of
        None \<Rightarrow> None
      | Some e \<Rightarrow> (case parentId e of None \<Rightarrow> Some 0 | Some p \<Rightarrow> map_option Suc (depthOf n els p)))"

text \<open>A well-formed forest: the keys are unique; every child listed by a node exists and
  names that node as its parent; every node with a parent has a non-empty parent id and
  is listed exactly once in the children of that parent; from every node the parent
  links lead to a root.\<close>

definition wellFormed :: "element obj \<Rightarrow> bool" where
  "wellFormed els \<longleftrightarrow>
     distinct (map fst els) \<and>
     list_all (\<lambda>(k, e).
        list_all (\<lambda>c. case map_of els c of None \<Rightarrow> False | Some ce \<Rightarrow> parentId ce = Some k)
                 (children e) \<and>
        (case parentId e of
           None \<Rightarrow> True
         | Some p \<Rightarrow> p \<noteq> [] \<and>
             (case map_of els p of None \<Rightarrow> False | Some pe \<Rightarrow> count_list (children pe) k = 1)) \<and>
        depthOf (length els) els k \<noteq> None) els"

text \<open>The object without the keys of a set.\<close>

definition without :: "string set \<Rightarrow> 'v obj \<Rightarrow> 'v obj" where
  "without S al = filter (\<lambda>(k, v). k \<notin> S) al"

text \<open>A set of keys that contains, with a node, the existing children of that node.\<close>

definition closedUnder :: "element obj \<Rightarrow> string set \<Rightarrow> bool" where
  "closedUnder els S \<longleftrightarrow>
     (\<forall>k\<in>S. \<forall>e c. map_of els k = Some e \<longrightarrow> c \<in> set (children e) \<longrightarrow> map_of els c \<noteq> None \<longrightarrow> c \<in> S)"

text \<open>\<open>removes cs els els'\<close>: \<open>els'\<close> is \<open>els\<close> without a set of keys which lies within
  the subtrees of the nodes \<open>cs\<close>, is closed under children and contains the existing
  nodes of \<open>cs\<close>.\<close>

definition removes :: "string list \<Rightarrow> element obj \<Rightarrow> element obj \<Rightarrow> bool" where
  "removes cs els els' \<longleftrightarrow>
     (\<exists>S. els' = without S els \<and> S \<subseteq> (\<Union>c\<in>set cs. subtree els c) \<and> closedUnder els S \<and>
          (\<forall>c\<in>set cs. map_of els c \<noteq> None \<longrightarrow> c \<in> S))"

text \<open>One step of the loop over the children in \<open>deleteRecursive\<close>.\<close>

abbreviation (input) delStep :: "nat \<Rightarrow> string \<Rightarrow> element obj option \<Rightarrow> element obj option" where
  "delStep n \<equiv> (\<lambda>c r. case r of None \<Rightarrow> None | Some els' \<Rightarrow> deleteRecursive n c els')"

section \<open>Example states\<close>

definition mkElement :: "string \<Rightarrow> string list \<Rightarrow> string option \<Rightarrow> string \<Rightarrow> element" where
  "mkElement i cs p pg =
     \<lparr>elem_id = i, tag = ''div'', classes = [], attributes = [], textContent = None,
      children = cs, parentId = p, pageId = pg\<rparr>"

definition mkManager :: "design_state \<Rightarrow> manager" where
  "mkManager s = \<lparr>state = s,
      dirty = \<lparr>d_project = False, d_styles = False, d_pages = {}, d_deletedPages = {}\<rparr>,
      emitted = []\<rparr>"

text \<open>One page whose root has the children \<open>a\<close> and \<open>b\<close>; \<open>c\<close> is a child of \<open>a\<close>.\<close>

definition treeState :: design_state where
  "treeState = createDefaultState\<lparr>elements :=
      [(''root-1'', mkElement ''root-1'' [''a'', ''b''] None ''page-1''),
       (''a'', mkElement ''a'' [''c''] (Some ''root-1'') ''page-1''),
       (''b'', mkElement ''b'' [] (Some ''root-1'') ''page-1''),
       (''c'', mkElement ''c'' [] (Some ''a'') ''page-1'')]\<rparr>"

text \<open>Two pages, the second one active, each with its root and one more element.\<close>

definition twoPageState :: design_state where
  "twoPageState = createDefaultState\<lparr>
      project := (project createDefaultState)\<lparr>activePageId := Some ''page-2''\<rparr>,
      pages := [(''page-1'', \<lparr>page_id = ''page-1'', page_name = ''Home'', rootId = Some ''root-1'',
                               page_styles = []\<rparr>),
                (''page-2'', \<lparr>page_id = ''page-2'', page_name = ''About'', rootId = Some ''root-2'',
                               page_styles = []\<rparr>)],
      elements :=
      [(''root-1'', mkElement ''root-1'' [''a''] None ''page-1''),
       (''root-2'', mkElement ''root-2'' [''b''] None ''page-2''),
       (''a'', mkElement ''a'' [] (Some ''root-1'') ''page-1''),
       (''b'', mkElement ''b'' [] (Some ''root-2'') ''page-2'')]\<rparr>"

text \<open>The token \<open>colors.bg\<close> is \<open>#fff\<close>; the styles use it alone, inside \<open>#ffffff\<close>,
  and with a hash sign behind it.\<close>

definition tokenState :: design_state where
  "tokenState = createDefaultState\<lparr>
      styles := [(''.hero'', [(''color'', ''#fff''), (''border'', ''1px solid #ffffff'')]),
                 (''.note'', [(''background'', ''#fff#'')]),
                 (''.plain'', [(''color'', ''#ffffff'')])],
      designTokens := [(''colors'', [(''bg'', ''#fff'')]), (''fonts'', []), (''spacing'', [])]\<rparr>"

definition createArgs :: "string \<Rightarrow> text_arg \<Rightarrow> int option \<Rightarrow> create_args" where
  "createArgs p t i = \<lparr>c_tag = ''p'', c_parentId = p, c_classes = None, c_attributes = None,
      c_textContent = t, c_insertIndex = i\<rparr>"



text \<open>A supply of identifiers.\<close>

definition genIds :: "nat \<Rightarrow> string" where
  "genIds n = ''id'' @ replicate n (CHR ''x'')"

section \<open>Properties\<close>

declare replaceFrom.simps [simp del]

subsection \<open>Association lists\<close>

lemma map_of_modify:
  "map_of (modify k f al) k' = (if k' = k then map_option f (map_of al k) else map_of al k')"
  by (induction al) (auto simp: modify_def)

lemma keys_modify: "map fst (modify k f al) = map fst al"
  by (induction al) (auto simp: modify_def)

lemma length_delete_distinct:
  "distinct (map fst al) \<Longrightarrow> map_of al k = Some v \<Longrightarrow> Suc (length (AList.delete k al)) = length al"
proof (induction al)
  case Nil
  then show ?case by simp
next
  case (Cons x al)
  obtain k' v' where x: "x = (k', v')" by (cases x)
  show ?case
  proof (cases "k' = k")
    case True
    with Cons.prems x have "k \<notin> fst ` set al" by auto
    then have "AList.delete k al = al"
      by (induction al) (auto simp: AList.delete_eq)
    with True x show ?thesis by (simp add: AList.delete_eq)
  next
    case False
    with Cons x show ?thesis by (simp add: AList.delete_eq)
  qed
qed

lemma firstKey_mem: "al \<noteq> [] \<Longrightarrow> \<exists>q. firstKey al = Some q \<and> q \<in> fst ` set al"
  by (cases al) (auto simp: firstKey_def)

subsection \<open>Creating an element\<close>




subsection \<open>Text content\<close>








subsection \<open>Deleting a page\<close>

text \<open>
  Claim C6. For a page that exists: when it is the only page, \<open>deletePage\<close> fails with
  \<open>InvalidOperation\<close> and the manager is unchanged; when there are more pages, it
  succeeds, the page is removed and the other pages stay, the elements are those of the
  other pages, styles and tokens stay, and the active page id stays unless it was the
  deleted page, in which case it becomes the id of a remaining page.
\<close>

theorem deletePage_contract:
  assumes d: "distinct (map fst (pages (state m)))"
      and p: "map_of (pages (state m)) pg = Some page"
  shows "if length (pages (state m)) = 1 then deletePage pg m = (Inl InvalidOperation, m)
         else (\<exists>m'. deletePage pg m = (Inr (), m') \<and>
                 map_of (pages (state m')) = (map_of (pages (state m)))(pg := None) \<and>
                 set (elements (state m')) =
                   {(i, el). (i, el) \<in> set (elements (state m)) \<and> pageId el \<noteq> pg} \<and>
                 styles (state m') = styles (state m) \<and>
                 designTokens (state m') = designTokens (state m) \<and>
                 (if activePageId (project (state m)) = Some pg
                  then (\<exists>q. activePageId (project (state m')) = Some q \<and> q \<noteq> pg \<and>
                            q \<in> fst ` set (pages (state m')))
                  else activePageId (project (state m')) = activePageId (project (state m))))"
proof (cases "length (pages (state m)) = 1")
  case True
  with p show ?thesis by (simp add: deletePage_def)
next
  case False
  from p have "pages (state m) \<noteq> []" by auto
  with False have len: "\<not> length (pages (state m)) \<le> 1"
    by (cases "pages (state m)") auto
  from length_delete_distinct[OF d p] len have ne: "AList.delete pg (pages (state m)) \<noteq> []"
    by auto
  from firstKey_mem[OF ne] obtain q where
    q: "firstKey (AList.delete pg (pages (state m))) = Some q"
       "q \<in> fst ` set (AList.delete pg (pages (state m)))" by blast
  have qpg: "q \<noteq> pg" using q(2) delete_notin_dom[of pg "pages (state m)"] by auto
  show ?thesis
    using False p len q qpg
    by (auto simp: deletePage_def Let_def emit_def mark_deleted_def mark_project_def delete_conv')
qed

theorem deletePage_contract_witness:
  "distinct (map fst (pages (state (mkManager createDefaultState)))) \<and>
   deletePage ''page-1'' (mkManager createDefaultState)
     = (Inl InvalidOperation, mkManager createDefaultState) \<and>
   distinct (map fst (pages (state (mkManager twoPageState)))) \<and>
   (\<exists>m'. deletePage ''page-2'' (mkManager twoPageState) = (Inr (), m') \<and>
      map_of (pages (state m')) ''page-2'' = None \<and>
      set (elements (state m')) = {(i, el). (i, el) \<in> set (elements (state (mkManager twoPageState))) \<and> pageId el \<noteq> ''page-2''} \<and>
      activePageId (project (state m')) = Some ''page-1'')"
proof -
  have d: "distinct (map fst (pages (state (mkManager createDefaultState))))"
    by (simp add: mkManager_def createDefaultState_def)
  have p: "map_of (pages (state (mkManager createDefaultState))) ''page-1''
       = Some \<lparr>page_id = ''page-1'', page_name = ''Home'', rootId = Some ''root-1'', page_styles = []\<rparr>"
    by (simp add: mkManager_def createDefaultState_def)
  have d2: "distinct (map fst (pages (state (mkManager twoPageState))))"
    by (simp add: mkManager_def twoPageState_def)
  have p2: "map_of (pages (state (mkManager twoPageState))) ''page-2''
       = Some \<lparr>page_id = ''page-2'', page_name = ''About'', rootId = Some ''root-2'', page_styles = []\<rparr>"
    by (simp add: mkManager_def twoPageState_def)
  have l1: "length (pages (state (mkManager createDefaultState))) = 1"
    by (simp add: mkManager_def createDefaultState_def)
  have l2: "length (pages (state (mkManager twoPageState))) \<noteq> 1"
     "activePageId (project (state (mkManager twoPageState))) = Some ''page-2''"
     "fst ` set (pages (state (mkManager twoPageState))) = {''page-1'', ''page-2''}"
    by (simp_all add: mkManager_def twoPageState_def)
  have a: "deletePage ''page-1'' (mkManager createDefaultState)
     = (Inl InvalidOperation, mkManager createDefaultState)"
    using deletePage_contract [OF d p] l1 by simp
  obtain m' where m': "deletePage ''page-2'' (mkManager twoPageState) = (Inr (), m')"
      "map_of (pages (state m')) = (map_of (pages (state (mkManager twoPageState))))(''page-2'' := None)"
      "set (elements (state m')) = {(i, el). (i, el) \<in> set (elements (state (mkManager twoPageState))) \<and> pageId el \<noteq> ''page-2''}"
      "\<exists>q. activePageId (project (state m')) = Some q \<and> q \<noteq> ''page-2'' \<and>
                            q \<in> fst ` set (pages (state m'))"
    using deletePage_contract [OF d2 p2] l2 by auto
  from m'(4) obtain q where q: "activePageId (project (state m')) = Some q" "q \<noteq> ''page-2''"
      "q \<in> fst ` set (pages (state m'))" by blast
  from q(3) have "map_of (pages (state m')) q \<noteq> None"
    by (metis map_of_eq_None_iff)
  with m'(2) q(2) have "map_of (pages (state (mkManager twoPageState))) q \<noteq> None" by simp
  then have "q \<in> {''page-1'', ''page-2''}" using l2(3) by (metis map_of_eq_None_iff)
  with q(2) have "q = ''page-1''" by simp
  with q m' a d d2 show ?thesis by auto
qed

subsection \<open>Token propagation\<close>

text \<open>
  Claim C8. When \<open>updateTokenWithPropagation\<close> has succeeded with a value, a second call
  with the same category, key and value returns the count 0 and leaves the manager as
  the first call left it.
\<close>

theorem updateToken_idempotent:
  assumes "updateTokenWithPropagation c k v m = (Inr n, m')"
  shows "updateTokenWithPropagation c k v m' = (Inr 0, m')"
  using assms
  by (auto simp: updateTokenWithPropagation_def Let_def emit_def mark_styles_def mark_project_def
        map_of_modify update_conv' split: option.splits if_splits)

theorem updateToken_idempotent_witness:
  "fst (updateTokenWithPropagation ''colors'' ''bg'' ''#000'' (mkManager tokenState)) = Inr 2 \<and>
   updateTokenWithPropagation ''colors'' ''bg'' ''#000''
      (snd (updateTokenWithPropagation ''colors'' ''bg'' ''#000'' (mkManager tokenState)))
    = (Inr 0, snd (updateTokenWithPropagation ''colors'' ''bg'' ''#000'' (mkManager tokenState)))"
proof -
  have e: "fst (updateTokenWithPropagation ''colors'' ''bg'' ''#000'' (mkManager tokenState)) = Inr 2"
    by code_simp
  then have "updateTokenWithPropagation ''colors'' ''bg'' ''#000'' (mkManager tokenState)
     = (Inr 2, snd (updateTokenWithPropagation ''colors'' ''bg'' ''#000'' (mkManager tokenState)))"
    by (metis prod.collapse)
  from updateToken_idempotent [OF this] e show ?thesis by simp
qed













lemma tokenValue_cases:
  "tokenValue s c k = None \<longleftrightarrow>
     (map_of (designTokens s) c = None \<or> (\<exists>toks. map_of (designTokens s) c = Some toks \<and> map_of toks k = None))"
  by (auto simp: tokenValue_def split: option.splits)






subsection \<open>Deleting an element\<close>

lemma map_of_without: "map_of (without S al) k = (if k \<in> S then None else map_of al k)"
  by (induction al) (auto simp: without_def)

lemma without_without: "without T (without S al) = without (S \<union> T) al"
  by (induction al) (auto simp: without_def)

lemma without_empty: "without {} al = al"
  by (simp add: without_def)

lemma delete_without: "AList.delete i (without S al) = without (insert i S) al"
  by (induction al) (auto simp: without_def AList.delete_eq)

lemma subtree_exists: "k \<in> subtree els i \<Longrightarrow> map_of els k \<noteq> None"
  by (induction rule: subtree.induct) auto

lemma subtree_root_exists: "k \<in> subtree els i \<Longrightarrow> map_of els i \<noteq> None"
  by (induction rule: subtree.induct) auto

lemma subtree_trans: "k \<in> subtree els c \<Longrightarrow> c \<in> subtree els i \<Longrightarrow> k \<in> subtree els i"
proof (induction rule: subtree.induct)
  case (self e)
  then show ?case by simp
next
  case (child k e c' ce)
  from child.IH[OF child.prems] child.hyps(2,3,4) show ?case by (rule subtree.child)
qed

lemma subtree_mono:
  "k \<in> subtree (without S els) i \<Longrightarrow> k \<in> subtree els i"
proof (induction rule: subtree.induct)
  case (self e)
  then have "map_of els i = Some e" by (simp add: map_of_without split: if_splits)
  then show ?case by (rule subtree.self)
next
  case (child k e c ce)
  from child.hyps(2) have 1: "map_of els k = Some e" by (simp add: map_of_without split: if_splits)
  from child.hyps(4) have 2: "map_of els c = Some ce" by (simp add: map_of_without split: if_splits)
  from child.IH 1 child.hyps(3) 2 show ?case by (rule subtree.child)
qed

lemma removes_step:
  assumes a: "removes cs els els1" and b: "removes [c] els1 els2"
  shows "removes (cs @ [c]) els els2"
proof -
  from a obtain S where S: "els1 = without S els" "S \<subseteq> (\<Union>c\<in>set cs. subtree els c)"
      "closedUnder els S" "\<forall>c\<in>set cs. map_of els c \<noteq> None \<longrightarrow> c \<in> S"
    unfolding removes_def by blast
  from b obtain T where T: "els2 = without T els1" "T \<subseteq> subtree els1 c"
      "closedUnder els1 T" "map_of els1 c \<noteq> None \<longrightarrow> c \<in> T"
    unfolding removes_def by auto
  have 1: "els2 = without (S \<union> T) els" using S(1) T(1) by (simp add: without_without)
  have Tsub: "T \<subseteq> subtree els c" using T(2) S(1) subtree_mono by blast
  have 2: "S \<union> T \<subseteq> (\<Union>c\<in>set (cs @ [c]). subtree els c)" using S(2) Tsub by auto
  have Tdom: "\<And>k. k \<in> T \<Longrightarrow> map_of els1 k \<noteq> None" using T(2) subtree_exists by blast
  have 3: "closedUnder els (S \<union> T)"
    unfolding closedUnder_def
  proof (intro ballI allI impI)
    fix k e c'
    assume k: "k \<in> S \<union> T" and e: "map_of els k = Some e" and c': "c' \<in> set (children e)"
       and ex: "map_of els c' \<noteq> None"
    show "c' \<in> S \<union> T"
    proof (cases "k \<in> S")
      case True
      with S(3) e c' ex show ?thesis unfolding closedUnder_def by blast
    next
      case False
      with k have kT: "k \<in> T" by simp
      from False e S(1) have e1: "map_of els1 k = Some e" by (simp add: map_of_without)
      show ?thesis
      proof (cases "c' \<in> S")
        case True
        then show ?thesis by simp
      next
        case False
        with ex S(1) have "map_of els1 c' \<noteq> None" by (simp add: map_of_without)
        with T(3) kT e1 c' have "c' \<in> T" unfolding closedUnder_def by blast
        then show ?thesis by simp
      qed
    qed
  qed
  have 4: "\<forall>x\<in>set (cs @ [c]). map_of els x \<noteq> None \<longrightarrow> x \<in> S \<union> T"
  proof (intro ballI impI)
    fix x assume x: "x \<in> set (cs @ [c])" and ex: "map_of els x \<noteq> None"
    show "x \<in> S \<union> T"
    proof (cases "x \<in> set cs")
      case True
      with S(4) ex show ?thesis by blast
    next
      case False
      with x have xc: "x = c" by simp
      show ?thesis
      proof (cases "c \<in> S")
        case True
        with xc show ?thesis by simp
      next
        case False
        with ex xc S(1) have "map_of els1 c \<noteq> None" by (simp add: map_of_without)
        with T(4) xc show ?thesis by simp
      qed
    qed
  qed
  from 1 2 3 4 show ?thesis unfolding removes_def by blast
qed

lemma removes_Nil: "removes [] els els"
  unfolding removes_def
  by (intro exI[of _ "{}"]) (simp add: without_empty closedUnder_def)

lemma fold_delStep_None: "fold (delStep n) cs None = None"
  by (induction cs) auto

lemma fold_removes:
  assumes IH: "\<And>c els1 els2. deleteRecursive n c els1 = Some els2 \<Longrightarrow> removes [c] els1 els2"
  shows "removes done0 els0 els \<Longrightarrow> fold (delStep n) cs (Some els) = Some els' \<Longrightarrow>
         removes (done0 @ cs) els0 els'"
proof (induction cs arbitrary: done0 els)
  case Nil
  then show ?case by simp
next
  case (Cons c cs)
  show ?case
  proof (cases "deleteRecursive n c els")
    case None
    with Cons.prems(2) show ?thesis by (simp add: fold_delStep_None)
  next
    case (Some els1)
    from IH[OF Some] have "removes [c] els els1" .
    with Cons.prems(1) have "removes (done0 @ [c]) els0 els1" by (rule removes_step)
    moreover from Cons.prems(2) Some have "fold (delStep n) cs (Some els1) = Some els'" by simp
    ultimately have "removes ((done0 @ [c]) @ cs) els0 els'" by (rule Cons.IH)
    then show ?thesis by simp
  qed
qed

lemma deleteRecursive_removes:
  "deleteRecursive n i els = Some els' \<Longrightarrow> removes [i] els els'"
proof (induction n arbitrary: i els els')
  case 0
  then show ?case by simp
next
  case (Suc n)
  show ?case
  proof (cases "map_of els i")
    case None
    with Suc.prems have "els' = els" by simp
    with None show ?thesis
      unfolding removes_def
      by (intro exI[of _ "{}"]) (simp add: without_empty closedUnder_def)
  next
    case (Some el)
    obtain r where r: "fold (delStep n) (children el) (Some els) = r" by simp
    from Suc.prems Some r have "(case r of None \<Rightarrow> None | Some x \<Rightarrow> Some (AList.delete i x)) = Some els'"
      by (simp only: deleteRecursive.simps option.case)
    then obtain els1 where "r = Some els1" and e': "els' = AList.delete i els1"
      by (cases r) auto
    with r have f: "fold (delStep n) (children el) (Some els) = Some els1" by simp
    from fold_removes[OF Suc.IH removes_Nil f] have "removes (children el) els els1" by simp
    then obtain S where S: "els1 = without S els" "S \<subseteq> (\<Union>c\<in>set (children el). subtree els c)"
      "closedUnder els S" "\<forall>c\<in>set (children el). map_of els c \<noteq> None \<longrightarrow> c \<in> S"
      unfolding removes_def by blast
    have self: "i \<in> subtree els i" using Some by (rule subtree.self)
    have 1: "els' = without (insert i S) els" using e' S(1) by (simp add: delete_without)
    have 2: "insert i S \<subseteq> (\<Union>c\<in>set [i]. subtree els c)"
    proof -
      have "S \<subseteq> subtree els i"
      proof
        fix k assume "k \<in> S"
        with S(2) obtain c where c: "c \<in> set (children el)" "k \<in> subtree els c" by blast
        from c(2) have "map_of els c \<noteq> None" by (rule subtree_root_exists)
        then obtain ce where "map_of els c = Some ce" by blast
        with self Some c(1) have "c \<in> subtree els i" by (rule subtree.child)
        with c(2) show "k \<in> subtree els i" by (rule subtree_trans)
      qed
      with self show ?thesis by simp
    qed
    have 3: "closedUnder els (insert i S)"
      unfolding closedUnder_def
    proof (intro ballI allI impI)
      fix k e c
      assume k: "k \<in> insert i S" and e: "map_of els k = Some e" and c: "c \<in> set (children e)"
        and ex: "map_of els c \<noteq> None"
      show "c \<in> insert i S"
      proof (cases "k = i")
        case True
        with e Some have "e = el" by simp
        with c ex S(4) show ?thesis by blast
      next
        case False
        with k have "k \<in> S" by simp
        with S(3) e c ex show ?thesis unfolding closedUnder_def by blast
      qed
    qed
    from 1 2 3 show ?thesis unfolding removes_def
      by (intro exI[of _ "insert i S"]) simp
  qed
qed

lemma closed_subtree:
  assumes "closedUnder els S" and "map_of els i \<noteq> None \<longrightarrow> i \<in> S"
  shows "k \<in> subtree els i \<Longrightarrow> k \<in> S"
proof (induction rule: subtree.induct)
  case (self e)
  with assms(2) show ?case by simp
next
  case (child k e c ce)
  with assms(1) show ?case unfolding closedUnder_def by blast
qed

lemma deleteRecursive_result:
  assumes "deleteRecursive n i els = Some els'"
  shows "els' = without (subtree els i) els"
proof -
  from deleteRecursive_removes[OF assms] obtain S where
    S: "els' = without S els" "S \<subseteq> subtree els i" "closedUnder els S" "map_of els i \<noteq> None \<longrightarrow> i \<in> S"
    unfolding removes_def by auto
  have "subtree els i \<subseteq> S" using closed_subtree[OF S(3,4)] by blast
  with S(2) have "S = subtree els i" by (rule subset_antisym)
  with S(1) show ?thesis by simp
qed

lemma fold_delStep_Some:
  assumes step: "\<And>c els1. c \<in> set cs \<Longrightarrow> (\<forall>k e. map_of els1 k = Some e \<longrightarrow> map_of els0 k = Some e) \<Longrightarrow>
                   deleteRecursive n c els1 \<noteq> None"
  shows "(\<forall>k e. map_of els k = Some e \<longrightarrow> map_of els0 k = Some e) \<Longrightarrow>
         fold (delStep n) cs (Some els) \<noteq> None"
  using step
proof (induction cs arbitrary: els)
  case Nil
  then show ?case by simp
next
  case (Cons c cs)
  from Cons.prems(2)[of c els] Cons.prems(1) obtain els1 where
    1: "deleteRecursive n c els = Some els1" by auto
  from deleteRecursive_result[OF 1] have "els1 = without (subtree els c) els" .
  with Cons.prems(1) have sub: "\<forall>k e. map_of els1 k = Some e \<longrightarrow> map_of els0 k = Some e"
    by (simp add: map_of_without split: if_splits)
  have "fold (delStep n) cs (Some els1) \<noteq> None"
    using sub Cons.prems(2) by (intro Cons.IH) auto
  with 1 show ?case by simp
qed

lemma deleteRecursive_returns:
  assumes rk: "\<And>k e c. map_of els0 k = Some e \<Longrightarrow> c \<in> set (children e) \<Longrightarrow>
                  map_of els0 c \<noteq> None \<Longrightarrow> rank c < (rank k :: nat)"
  shows "(\<forall>k e. map_of els k = Some e \<longrightarrow> map_of els0 k = Some e) \<Longrightarrow> 0 < n \<Longrightarrow>
         (map_of els i \<noteq> None \<longrightarrow> Suc (rank i) < n) \<Longrightarrow> deleteRecursive n i els \<noteq> None"
proof (induction n arbitrary: i els)
  case 0
  then show ?case by simp
next
  case (Suc n)
  show ?case
  proof (cases "map_of els i")
    case None
    then show ?thesis by simp
  next
    case (Some el)
    with Suc.prems(3) have r: "rank i < n" by simp
    from Some Suc.prems(1) have el0: "map_of els0 i = Some el" by simp
    have "fold (delStep n) (children el) (Some els) \<noteq> None"
    proof (rule fold_delStep_Some[where ?els0.0 = els0])
      fix c els1
      assume c: "c \<in> set (children el)"
        and sub: "\<forall>k e. map_of els1 k = Some e \<longrightarrow> map_of els0 k = Some e"
      have "map_of els1 c \<noteq> None \<longrightarrow> Suc (rank c) < n"
      proof
        assume "map_of els1 c \<noteq> None"
        with sub have "map_of els0 c \<noteq> None" by auto
        from rk[OF el0 c this] r show "Suc (rank c) < n" by simp
      qed
      moreover from r have "0 < n" by simp
      ultimately show "deleteRecursive n c els1 \<noteq> None"
        using sub by (intro Suc.IH) auto
    next
      show "\<forall>k e. map_of els k = Some e \<longrightarrow> map_of els0 k = Some e" by (rule Suc.prems(1))
    qed
    then obtain els1 where "fold (delStep n) (children el) (Some els) = Some els1" by auto
    with Some show ?thesis by simp
  qed
qed

lemma depthOf_mono: "depthOf n els k = Some d \<Longrightarrow> depthOf (Suc n) els k = Some d"
proof (induction n arbitrary: k d)
  case 0
  then show ?case by simp
next
  case (Suc n)
  show ?case
  proof (cases "map_of els k")
    case None
    with Suc.prems show ?thesis by simp
  next
    case (Some e)
    show ?thesis
    proof (cases "parentId e")
      case None
      with Some Suc.prems show ?thesis by simp
    next
      case (Some p)
      with \<open>map_of els k = Some e\<close> Suc.prems obtain d' where
        d': "depthOf n els p = Some d'" "d = Suc d'" by auto
      from Suc.IH[OF d'(1)] have "depthOf (Suc n) els p = Some d'" .
      with Some \<open>map_of els k = Some e\<close> d'(2) show ?thesis
        by (subst depthOf.simps(2)) simp
    qed
  qed
qed

lemma depthOf_lt: "depthOf n els k = Some d \<Longrightarrow> d < n"
proof (induction n arbitrary: k d)
  case 0
  then show ?case by simp
next
  case (Suc n)
  then show ?case by (fastforce split: option.splits)
qed

lemma wf_entry:
  assumes "wellFormed els" and "map_of els k = Some e"
  shows "\<forall>c\<in>set (children e). \<exists>ce. map_of els c = Some ce \<and> parentId ce = Some k"
    and "\<forall>p. parentId e = Some p \<longrightarrow> p \<noteq> [] \<and> (\<exists>pe. map_of els p = Some pe \<and> count_list (children pe) k = 1)"
    and "\<exists>d. depthOf (length els) els k = Some d"
proof -
  from assms(2) have "(k, e) \<in> set els" by (rule map_of_SomeD)
  with assms(1) have
    a: "list_all (\<lambda>c. case map_of els c of None \<Rightarrow> False | Some ce \<Rightarrow> parentId ce = Some k) (children e)"
    and b: "(case parentId e of None \<Rightarrow> True
         | Some p \<Rightarrow> p \<noteq> [] \<and> (case map_of els p of None \<Rightarrow> False | Some pe \<Rightarrow> count_list (children pe) k = 1))"
    and c: "depthOf (length els) els k \<noteq> None"
    unfolding wellFormed_def list_all_iff by auto
  from a show "\<forall>c\<in>set (children e). \<exists>ce. map_of els c = Some ce \<and> parentId ce = Some k"
    unfolding list_all_iff by (auto split: option.splits)
  from b show "\<forall>p. parentId e = Some p \<longrightarrow> p \<noteq> [] \<and> (\<exists>pe. map_of els p = Some pe \<and> count_list (children pe) k = 1)"
    by (auto split: option.splits)
  from c show "\<exists>d. depthOf (length els) els k = Some d" by auto
qed

lemma wf_child_depth:
  assumes wf: "wellFormed els" and k: "map_of els k = Some e" and c: "c \<in> set (children e)"
      and dk: "depthOf (length els) els k = Some dk"
  shows "depthOf (length els) els c = Some (Suc dk)"
proof -
  from wf_entry(1)[OF wf k] c obtain ce where ce: "map_of els c = Some ce" "parentId ce = Some k"
    by blast
  from wf_entry(3)[OF wf ce(1)] obtain dc where dc: "depthOf (length els) els c = Some dc" by blast
  then obtain N where N: "length els = Suc N" by (cases "length els") auto
  from dc N ce obtain d' where d': "depthOf N els k = Some d'" "dc = Suc d'" by auto
  from depthOf_mono[OF d'(1)] N dk have "d' = dk" by simp
  with d'(2) dc show ?thesis by simp
qed

lemma subtree_depth:
  assumes wf: "wellFormed els"
  shows "k \<in> subtree els i \<Longrightarrow> depthOf (length els) els i = Some di \<Longrightarrow>
         \<exists>d. depthOf (length els) els k = Some d \<and> di \<le> d"
proof (induction rule: subtree.induct)
  case (self e)
  then show ?case by simp
next
  case (child k e c ce)
  from child.IH[OF child.prems] obtain d where d: "depthOf (length els) els k = Some d" "di \<le> d"
    by blast
  from wf_child_depth[OF wf child.hyps(2,3) d(1)] d(2) show ?case by simp
qed

lemma length_filter_neq: "length (filter (\<lambda>c. c \<noteq> x) xs) + count_list xs x = length xs"
  by (induction xs) auto

lemma length_without:
  assumes "distinct (map fst al)" and "S \<subseteq> fst ` set al"
  shows "length (without S al) + card S = length al"
proof -
  have "length (filter (\<lambda>(k, v). k \<in> S) al) = card S"
  proof -
    have m: "map fst (filter (\<lambda>(k, v). k \<in> S) al) = filter (\<lambda>k. k \<in> S) (map fst al)"
      by (induction al) auto
    have "distinct (filter (\<lambda>k. k \<in> S) (map fst al))" using assms(1) by simp
    then have "card (set (filter (\<lambda>k. k \<in> S) (map fst al))) = length (filter (\<lambda>k. k \<in> S) (map fst al))"
      by (rule distinct_card)
    moreover have "set (filter (\<lambda>k. k \<in> S) (map fst al)) = S" using assms(2) by auto
    ultimately have "card S = length (map fst (filter (\<lambda>(k, v). k \<in> S) al))" using m by simp
    then show ?thesis by simp
  qed
  moreover have "length (filter (\<lambda>(k, v). k \<notin> S) al) + length (filter (\<lambda>(k, v). k \<in> S) al) = length al"
    by (induction al) auto
  ultimately show ?thesis by (simp add: without_def)
qed

lemma wf_deleteRecursive:
  assumes wf: "wellFormed els" and fuel: "length els < fuel"
  shows "deleteRecursive fuel i els = Some (without (subtree els i) els)"
proof -
  let ?N = "length els"
  let ?rank = "\<lambda>k. ?N - Suc (case depthOf ?N els k of None \<Rightarrow> 0 | Some d \<Rightarrow> d)"
  have rk: "?rank c < ?rank k"
    if k: "map_of els k = Some e" and c: "c \<in> set (children e)" and "map_of els c \<noteq> None" for k e c
  proof -
    from wf_entry(3)[OF wf k] obtain dk where dk: "depthOf ?N els k = Some dk" by blast
    from wf_child_depth[OF wf k c dk] have dc: "depthOf ?N els c = Some (Suc dk)" .
    from depthOf_lt[OF dc] have "Suc dk < ?N" .
    with dk dc show ?thesis by simp
  qed
  have "deleteRecursive fuel i els \<noteq> None"
  proof (rule deleteRecursive_returns[where ?els0.0 = els and rank = ?rank])
    show "\<And>k e c. map_of els k = Some e \<Longrightarrow> c \<in> set (children e) \<Longrightarrow> map_of els c \<noteq> None \<Longrightarrow>
         ?rank c < ?rank k" by (rule rk)
    show "\<forall>k e. map_of els k = Some e \<longrightarrow> map_of els k = Some e" by simp
    show "0 < fuel" using fuel by simp
    show "map_of els i \<noteq> None \<longrightarrow> Suc (?rank i) < fuel"
    proof
      assume "map_of els i \<noteq> None"
      then have "0 < ?N" by (cases els) auto
      moreover have "0 < n \<Longrightarrow> Suc (n - Suc x) \<le> n" for n x :: nat by arith
      ultimately have "Suc (?rank i) \<le> ?N" by blast
      with fuel show "Suc (?rank i) < fuel" by simp
    qed
  qed
  then obtain els' where e: "deleteRecursive fuel i els = Some els'" by auto
  from deleteRecursive_result[OF e] e show ?thesis by simp
qed

lemma length_modify: "length (modify k f al) = length al"
  by (simp add: modify_def)

text \<open>
  Claim C5. For a node \<open>i\<close> that exists: when it is a root (its parent id is \<open>null\<close>),
  \<open>deleteElement\<close> fails with \<open>InvalidOperation\<close> and the manager is unchanged. When the
  elements are a well-formed forest and \<open>i\<close> has the parent \<open>p\<close>, then \<open>deleteElement\<close>
  returns, for every bound on the depth of the recursion beyond the number of elements,
  and succeeds: the node and all its descendants are removed from the element map and
  nothing else is (the map has as many entries less as the subtree has nodes), and the
  parent, which is not in the subtree, keeps its entry with \<open>i\<close> taken out of its
  children, whose length shrinks by exactly one.
\<close>

theorem deleteElement_contract:
  assumes el: "map_of (elements (state m)) i = Some el"
  shows "(parentId el = None \<longrightarrow> deleteElement fuel i m = Some (Inl InvalidOperation, m)) \<and>
         (wellFormed (elements (state m)) \<and> length (elements (state m)) < fuel \<longrightarrow>
           (\<forall>p. parentId el = Some p \<longrightarrow>
             (\<exists>m' pe. deleteElement fuel i m = Some (Inr (), m') \<and>
                map_of (elements (state m)) p = Some pe \<and>
                i \<in> subtree (elements (state m)) i \<and>
                p \<notin> subtree (elements (state m)) i \<and>
                (\<forall>k. map_of (elements (state m')) k =
                       (if k \<in> subtree (elements (state m)) i then None
                        else if k = p
                             then Some (pe\<lparr>children := filter (\<lambda>c. c \<noteq> i) (children pe)\<rparr>)
                             else map_of (elements (state m)) k)) \<and>
                length (elements (state m')) + card (subtree (elements (state m)) i)
                  = length (elements (state m)) \<and>
                Suc (length (filter (\<lambda>c. c \<noteq> i) (children pe))) = length (children pe))))"
proof (intro conjI impI allI)
  assume "parentId el = None"
  with el show "deleteElement fuel i m = Some (Inl InvalidOperation, m)"
    by (simp add: deleteElement_def noParent_def)
next
  fix p
  let ?els = "elements (state m)"
  assume a: "wellFormed ?els \<and> length ?els < fuel" and p: "parentId el = Some p"
  then have wf: "wellFormed ?els" and fuel: "length ?els < fuel" by simp_all
  from wf_entry(2)[OF wf el] p obtain pe where
    pne: "p \<noteq> []" and pe: "map_of ?els p = Some pe" and cnt: "count_list (children pe) i = 1"
    by blast
  from cnt have ic: "i \<in> set (children pe)"
    by (metis count_list_0_iff zero_neq_one)
  have self: "i \<in> subtree ?els i" using el by (rule subtree.self)
  have pnot: "p \<notin> subtree ?els i"
  proof
    assume ps: "p \<in> subtree ?els i"
    from wf_entry(3)[OF wf pe] obtain dp where dp: "depthOf (length ?els) ?els p = Some dp" by blast
    from wf_child_depth[OF wf pe ic dp] have di: "depthOf (length ?els) ?els i = Some (Suc dp)" .
    from subtree_depth[OF wf ps di] dp show False by simp
  qed
  let ?els1 = "without (subtree ?els i) ?els"
  let ?f = "\<lambda>pe. pe\<lparr>children := filter (\<lambda>c. c \<noteq> i) (children pe)\<rparr>"
  let ?els2 = "modify p ?f ?els1"
  have dr: "deleteRecursive fuel i ?els = Some ?els1" using wf fuel by (rule wf_deleteRecursive)
  obtain m' where m': "deleteElement fuel i m = Some (Inr (), m')" and els': "elements (state m') = ?els2"
    using el p pne dr
    by (simp add: deleteElement_def noParent_def Let_def emit_def mark_page_def set_elements_def)
  have lk: "\<forall>k. map_of (elements (state m')) k =
                       (if k \<in> subtree ?els i then None
                        else if k = p then Some (?f pe) else map_of ?els k)"
    using els' pe pnot by (simp add: map_of_modify map_of_without)
  have sub: "subtree ?els i \<subseteq> fst ` set ?els"
  proof
    fix k assume "k \<in> subtree ?els i"
    then have "map_of ?els k \<noteq> None" by (rule subtree_exists)
    then show "k \<in> fst ` set ?els" by (simp add: map_of_eq_None_iff)
  qed
  from wf have "distinct (map fst ?els)" by (simp add: wellFormed_def)
  from length_without[OF this sub] els'
  have len: "length (elements (state m')) + card (subtree ?els i) = length ?els"
    by (simp add: length_modify)
  from length_filter_neq[of i "children pe"] cnt
  have ch: "Suc (length (filter (\<lambda>c. c \<noteq> i) (children pe))) = length (children pe)" by simp
  from m' pe self pnot lk len ch
  show "\<exists>m' pe. deleteElement fuel i m = Some (Inr (), m') \<and>
                map_of (elements (state m)) p = Some pe \<and>
                i \<in> subtree (elements (state m)) i \<and>
                p \<notin> subtree (elements (state m)) i \<and>
                (\<forall>k. map_of (elements (state m')) k =
                       (if k \<in> subtree (elements (state m)) i then None
                        else if k = p
                             then Some (pe\<lparr>children := filter (\<lambda>c. c \<noteq> i) (children pe)\<rparr>)
                             else map_of (elements (state m)) k)) \<and>
                length (elements (state m')) + card (subtree (elements (state m)) i)
                  = length (elements (state m)) \<and>
                Suc (length (filter (\<lambda>c. c \<noteq> i) (children pe))) = length (children pe)"
    by blast
qed

theorem deleteElement_contract_witness:
  "wellFormed (elements (state (mkManager treeState))) \<and>
   length (elements (state (mkManager treeState))) < 5 \<and>
   deleteElement 5 ''root-1'' (mkManager treeState) = Some (Inl InvalidOperation, mkManager treeState) \<and>
   (\<exists>m'. deleteElement 5 ''a'' (mkManager treeState) = Some (Inr (), m') \<and>
      map_of (elements (state m')) ''a'' = None \<and>
      map_of (elements (state m')) ''c'' = None \<and>
      map_option children (map_of (elements (state m')) ''root-1'') = Some [''b''] \<and>
      map_of (elements (state m')) ''b'' = map_of (elements (state (mkManager treeState))) ''b'')"
proof -
  let ?m = "mkManager treeState"
  let ?els = "elements (state ?m)"
  have wf: "wellFormed ?els" by code_simp
  have len: "length ?els < 5" by (simp add: mkManager_def treeState_def)
  have r: "map_of ?els ''root-1'' = Some (mkElement ''root-1'' [''a'', ''b''] None ''page-1'')"
    by (simp add: mkManager_def treeState_def)
  have a: "map_of ?els ''a'' = Some (mkElement ''a'' [''c''] (Some ''root-1'') ''page-1'')"
    by (simp add: mkManager_def treeState_def)
  have c: "map_of ?els ''c'' = Some (mkElement ''c'' [] (Some ''a'') ''page-1'')"
    by (simp add: mkManager_def treeState_def)
  have b: "map_of ?els ''b'' = Some (mkElement ''b'' [] (Some ''root-1'') ''page-1'')"
    by (simp add: mkManager_def treeState_def)
  have 1: "deleteElement 5 ''root-1'' ?m = Some (Inl InvalidOperation, ?m)"
    using deleteElement_contract [OF r, of 5] by (simp add: mkElement_def)
  from deleteElement_contract [OF a, of 5] wf len
  obtain m' pe where m': "deleteElement 5 ''a'' ?m = Some (Inr (), m')"
      "map_of ?els ''root-1'' = Some pe"
      "''a'' \<in> subtree ?els ''a''" "''root-1'' \<notin> subtree ?els ''a''"
      "\<forall>k. map_of (elements (state m')) k =
                       (if k \<in> subtree ?els ''a'' then None
                        else if k = ''root-1''
                             then Some (pe\<lparr>children := filter (\<lambda>c. c \<noteq> ''a'') (children pe)\<rparr>)
                             else map_of ?els k)"
    by (auto simp: mkElement_def)
  have cs: "''c'' \<in> subtree ?els ''a''"
    using m'(3) a _ c by (rule subtree.child) (simp add: mkElement_def)
  have bs: "''b'' \<notin> subtree ?els ''a''"
  proof
    assume "''b'' \<in> subtree ?els ''a''"
    then show False
    proof (cases rule: subtree.cases)
      case (self e)
      then show ?thesis by simp
    next
      case (child k e ce)
      from child(2,3) have "k = ''root-1''"
        by (auto simp: mkManager_def treeState_def mkElement_def split: if_splits)
      with child(1) m'(4) show ?thesis by simp
    qed
  qed
  from m'(2) r have pe: "pe = mkElement ''root-1'' [''a'', ''b''] None ''page-1''" by simp
  from m'(5) m'(3) cs bs m'(4) b
  have "map_of (elements (state m')) ''a'' = None" "map_of (elements (state m')) ''c'' = None"
     "map_option children (map_of (elements (state m')) ''root-1'') = Some [''b'']"
     "map_of (elements (state m')) ''b'' = map_of ?els ''b''"
    unfolding pe by (simp_all add: mkElement_def)
  with wf len 1 m'(1) show ?thesis by blast
qed

subsection \<open>Moving an element\<close>





subsection \<open>Events and dirty marks\<close>

lemmas mark_defs = emit_def mark_page_def mark_project_def mark_styles_def mark_deleted_def
  set_elements_def

lemma outcome_success:
  "outcome r = Some (None, m') \<longleftrightarrow> (\<exists>x. r = (Inr x, m'))"
  by (cases r; cases "fst r") (auto simp: outcome_def)

lemma createElement_emits:
  "createElement newId a m = (Inr x, m') \<Longrightarrow>
   emitted m' = emitted m @ [ElementCreated x (c_parentId a) (c_insertIndex a)] \<and>
   isMarked (PagePartition (pageOf m (c_parentId a))) (dirty m')"
  by (auto simp: createElement_def Let_def mark_defs isMarked_def pageOf_def split: option.splits)

lemma updateElement_emits:
  "updateElement a m = (Inr x, m') \<Longrightarrow>
   (\<exists>d. emitted m' = emitted m @ [d]) \<and> isMarked (PagePartition (pageOf m (u_id a))) (dirty m')"
  by (auto simp: updateElement_def Let_def mark_defs isMarked_def pageOf_def split: option.splits)

lemma deleteElement_emits:
  "deleteElement fuel i m = Some (Inr x, m') \<Longrightarrow>
   (\<exists>d. emitted m' = emitted m @ [d]) \<and> isMarked (PagePartition (pageOf m i)) (dirty m')"
  by (auto simp: deleteElement_def Let_def mark_defs isMarked_def pageOf_def
      split: option.splits if_splits)

lemma moveElement_emits:
  "moveElement fuel a m = Some (Inr x, m') \<Longrightarrow>
   (\<exists>d. emitted m' = emitted m @ [d]) \<and> isMarked (PagePartition (pageOf m (mv_id a))) (dirty m')"
  by (auto simp: moveElement_def Let_def mark_defs isMarked_def pageOf_def
      split: option.splits if_splits)

lemma createElementTree_emits:
  "createElementTree gen p defs m = (Inr x, m') \<Longrightarrow>
   (\<exists>d. emitted m' = emitted m @ [d]) \<and> isMarked (PagePartition (pageOf m p)) (dirty m')"
  by (auto simp: createElementTree_def Let_def mark_defs isMarked_def pageOf_def
      split: option.splits)

lemma createPage_emits:
  "snd (createPage gen nm m) = m' \<Longrightarrow>
   (\<exists>d. emitted m' = emitted m @ [d]) \<and> isMarked (PagePartition (''page-'' @ gen 0)) (dirty m')"
  by (auto simp: createPage_def Let_def mark_defs isMarked_def)

lemma clonePage_emits:
  "clonePage gen src nm m = (Inr x, m') \<Longrightarrow>
   (\<exists>d. emitted m' = emitted m @ [d]) \<and> isMarked (PagePartition (''page-'' @ gen 0)) (dirty m')"
  by (auto simp: clonePage_def Let_def mark_defs isMarked_def split: option.splits)

lemma deletePage_emits:
  "deletePage pg m = (Inr x, m') \<Longrightarrow>
   (\<exists>d. emitted m' = emitted m @ [d]) \<and> isMarked (PageRemoval pg) (dirty m')"
  by (auto simp: deletePage_def Let_def mark_defs isMarked_def split: option.splits if_splits)

lemma renamePage_emits:
  "renamePage pg nm m = (Inr x, m') \<Longrightarrow>
   (\<exists>d. emitted m' = emitted m @ [d]) \<and> isMarked (PagePartition pg) (dirty m')"
  by (auto simp: renamePage_def Let_def mark_defs isMarked_def split: option.splits)

lemma setActivePage_emits:
  "setActivePage pg m = (Inr x, m') \<Longrightarrow>
   (\<exists>d. emitted m' = emitted m @ [d]) \<and> isMarked ProjectPartition (dirty m')"
  by (auto simp: setActivePage_def Let_def mark_defs isMarked_def split: option.splits)

lemma setStyles_emits:
  "snd (setStyles sel props m) = m' \<Longrightarrow>
   (\<exists>d. emitted m' = emitted m @ [d]) \<and> isMarked StylesPartition (dirty m')"
  by (auto simp: setStyles_def Let_def mark_defs isMarked_def)

lemma batchSetStyles_emits:
  "snd (batchSetStyles entries m) = m' \<Longrightarrow>
   (\<exists>d. emitted m' = emitted m @ [d]) \<and> isMarked StylesPartition (dirty m')"
  by (auto simp: batchSetStyles_def Let_def mark_defs isMarked_def)

lemma deleteStyles_emits:
  "deleteStyles sel m = (Inr x, m') \<Longrightarrow>
   (\<exists>d. emitted m' = emitted m @ [d]) \<and> isMarked StylesPartition (dirty m')"
  by (auto simp: deleteStyles_def Let_def mark_defs isMarked_def split: option.splits)

lemma setDesignTokens_emits:
  "snd (setDesignTokens c toks m) = m' \<Longrightarrow>
   (\<exists>d. emitted m' = emitted m @ [d]) \<and> isMarked ProjectPartition (dirty m')"
  by (auto simp: setDesignTokens_def Let_def mark_defs isMarked_def)

lemma setDesignType_emits:
  "snd (setDesignType dt m) = m' \<Longrightarrow>
   (\<exists>d. emitted m' = emitted m @ [d]) \<and> isMarked ProjectPartition (dirty m')"
  by (auto simp: setDesignType_def Let_def mark_defs isMarked_def)

lemma setViewport_emits:
  "snd (setViewport a m) = m' \<Longrightarrow>
   (\<exists>d. emitted m' = emitted m @ [d]) \<and> isMarked ProjectPartition (dirty m')"
  by (auto simp: setViewport_def Let_def mark_defs isMarked_def split: option.splits)

lemma filter_nonempty_iff: "filter P xs \<noteq> [] \<longleftrightarrow> list_ex P xs"
  by (induction xs) auto

lemma updateToken_emits:
  assumes "updateTokenWithPropagation c k v m = (Inr x, m')"
  shows "\<exists>ds. emitted m' = emitted m @ ds \<and>
           length ds = deltaCount (UpdateTokenWithPropagation c k v) m \<and>
           (0 < length ds \<longrightarrow> isMarked ProjectPartition (dirty m')) \<and>
           (length ds = 2 \<longrightarrow> isMarked StylesPartition (dirty m')) \<and>
           (length ds = 0 \<longrightarrow> m' = m)"
proof -
  from assms obtain toks old where t: "map_of (designTokens (state m)) c = Some toks"
      "map_of toks k = Some old"
    by (auto simp: updateTokenWithPropagation_def split: option.splits)
  then have tv: "tokenValue (state m) c k = Some old" by (simp add: tokenValue_def)
  show ?thesis
  proof (cases "old = v")
    case True
    with assms t tv show ?thesis
      by (simp add: updateTokenWithPropagation_def deltaCount_def)
  next
    case False
    show ?thesis
    proof (cases "list_ex (\<lambda>(sel, props). selectorChanged old props) (styles (state m))")
      case True
      then have "filter (\<lambda>(sel, props). selectorChanged old props) (styles (state m)) \<noteq> []"
        by (simp add: filter_nonempty_iff)
      with assms t tv False True show ?thesis
        by (auto simp: updateTokenWithPropagation_def deltaCount_def Let_def mark_defs isMarked_def)
    next
      case F2: False
      then have "filter (\<lambda>(sel, props). selectorChanged old props) (styles (state m)) = []"
        using filter_nonempty_iff[of "\<lambda>(sel, props). selectorChanged old props" "styles (state m)"]
        by blast
      with assms t tv False F2 show ?thesis
        by (auto simp: updateTokenWithPropagation_def deltaCount_def Let_def mark_defs isMarked_def)
    qed
  qed
qed

text \<open>
  Claim C3, as amended. When an operation succeeds, the events it emits are appended to
  those emitted before. Every operation other than \<open>updateTokenWithPropagation\<close> emits
  exactly one event and marks the partition that owns the change: the page of the
  element, the new page, the removal of the deleted page, the styles or the project.
  \<open>updateTokenWithPropagation\<close> emits nothing and changes nothing when the token has the
  value already; otherwise it emits the token event and marks the project, and when it
  rewrote a style it emits a second event, the batch of styles, and marks the styles.
\<close>

theorem perform_emits:
  assumes "perform fuel gen op m = Some (None, m')"
  shows "\<exists>ds. emitted m' = emitted m @ ds \<and> length ds = deltaCount op m \<and>
           (0 < length ds \<longrightarrow> isMarked (owner gen op m) (dirty m')) \<and>
           (length ds = 2 \<longrightarrow> isMarked StylesPartition (dirty m')) \<and>
           (length ds = 0 \<longrightarrow> m' = m)"
proof (cases op)
  case (CreateElement a)
  with assms createElement_emits[of "gen 0" a m _ m'] show ?thesis
    by (auto simp: perform_def outcome_success deltaCount_def owner_def)
next
  case (UpdateElement a)
  with assms updateElement_emits[of a m _ m'] show ?thesis
    by (auto simp: perform_def outcome_success deltaCount_def owner_def)
next
  case (DeleteElement i)
  with assms deleteElement_emits[of fuel i m _ m'] show ?thesis
    by (auto simp: perform_def outcome_success deltaCount_def owner_def split: option.splits)
next
  case (MoveElement a)
  with assms moveElement_emits[of fuel a m _ m'] show ?thesis
    by (auto simp: perform_def outcome_success deltaCount_def owner_def split: option.splits)
next
  case (CreateElementTree p defs)
  with assms createElementTree_emits[of gen p defs m _ m'] show ?thesis
    by (auto simp: perform_def outcome_success deltaCount_def owner_def)
next
  case (CreatePage nm)
  with assms createPage_emits[of gen nm m m'] show ?thesis
    by (auto simp: perform_def deltaCount_def owner_def)
next
  case (ClonePage src nm)
  with assms clonePage_emits[of gen src nm m _ m'] show ?thesis
    by (auto simp: perform_def outcome_success deltaCount_def owner_def)
next
  case (DeletePage pg)
  with assms deletePage_emits[of pg m _ m'] show ?thesis
    by (auto simp: perform_def outcome_success deltaCount_def owner_def)
next
  case (RenamePage pg nm)
  with assms renamePage_emits[of pg nm m _ m'] show ?thesis
    by (auto simp: perform_def outcome_success deltaCount_def owner_def)
next
  case (SetActivePage pg)
  with assms setActivePage_emits[of pg m _ m'] show ?thesis
    by (auto simp: perform_def outcome_success deltaCount_def owner_def)
next
  case (SetStyles sel props)
  with assms setStyles_emits[of sel props m m'] show ?thesis
    by (auto simp: perform_def deltaCount_def owner_def)
next
  case (BatchSetStyles entries)
  with assms batchSetStyles_emits[of entries m m'] show ?thesis
    by (auto simp: perform_def deltaCount_def owner_def)
next
  case (DeleteStyles sel)
  with assms deleteStyles_emits[of sel m _ m'] show ?thesis
    by (auto simp: perform_def outcome_success deltaCount_def owner_def)
next
  case (SetDesignTokens c toks)
  with assms setDesignTokens_emits[of c toks m m'] show ?thesis
    by (auto simp: perform_def deltaCount_def owner_def)
next
  case (UpdateTokenWithPropagation c k v)
  with assms obtain x where "updateTokenWithPropagation c k v m = (Inr x, m')"
    by (auto simp: perform_def outcome_success)
  from updateToken_emits[OF this] UpdateTokenWithPropagation show ?thesis
    by (simp add: owner_def)
next
  case (SetDesignType dt)
  with assms setDesignType_emits[of dt m m'] show ?thesis
    by (auto simp: perform_def deltaCount_def owner_def)
next
  case (SetViewport a)
  with assms setViewport_emits[of a m m'] show ?thesis
    by (auto simp: perform_def deltaCount_def owner_def)
qed

theorem perform_emits_witness:
  "(\<exists>m' d. perform 5 genIds (CreateElement (createArgs ''root-1'' Undefined None)) (mkManager treeState)
             = Some (None, m') \<and>
          emitted m' = emitted (mkManager treeState) @ [d] \<and> ''page-1'' \<in> d_pages (dirty m')) \<and>
   (\<exists>m' d e. perform 5 genIds (UpdateTokenWithPropagation ''colors'' ''bg'' ''#000'') (mkManager tokenState)
             = Some (None, m') \<and>
          emitted m' = emitted (mkManager tokenState) @ [d, e] \<and>
          d_project (dirty m') \<and> d_styles (dirty m'))"
proof -
  let ?op1 = "CreateElement (createArgs ''root-1'' Undefined None)"
  let ?op2 = "UpdateTokenWithPropagation ''colors'' ''bg'' ''#000''"
  have "\<exists>m'. perform 5 genIds ?op1 (mkManager treeState) = Some (None, m')"
    by (simp add: perform_def outcome_def createElement_def createArgs_def mkManager_def
        treeState_def Let_def)
  then obtain m1 where m1: "perform 5 genIds ?op1 (mkManager treeState) = Some (None, m1)" by blast
  have c1: "deltaCount ?op1 (mkManager treeState) = 1" by (simp add: deltaCount_def)
  have o1: "owner genIds ?op1 (mkManager treeState) = PagePartition ''page-1''"
    by (simp add: owner_def pageOf_def createArgs_def mkManager_def treeState_def mkElement_def)
  from perform_emits [OF m1] c1 o1 obtain ds where
    ds: "emitted m1 = emitted (mkManager treeState) @ ds" "length ds = 1"
        "''page-1'' \<in> d_pages (dirty m1)"
    by (auto simp: isMarked_def)
  from ds(2) obtain d where "ds = [d]" by (cases ds) auto
  with m1 ds have A: "\<exists>m' d. perform 5 genIds ?op1 (mkManager treeState) = Some (None, m') \<and>
          emitted m' = emitted (mkManager treeState) @ [d] \<and> ''page-1'' \<in> d_pages (dirty m')"
    by blast
  have "fst (updateTokenWithPropagation ''colors'' ''bg'' ''#000'' (mkManager tokenState)) = Inr 2"
    by code_simp
  then have "\<exists>m'. perform 5 genIds ?op2 (mkManager tokenState) = Some (None, m')"
    by (simp add: perform_def outcome_def)
  then obtain m2 where m2: "perform 5 genIds ?op2 (mkManager tokenState) = Some (None, m2)" by blast
  have c2: "deltaCount ?op2 (mkManager tokenState) = 2" by code_simp
  from perform_emits [OF m2] c2 obtain es where
    es: "emitted m2 = emitted (mkManager tokenState) @ es" "length es = 2"
        "isMarked (owner genIds ?op2 (mkManager tokenState)) (dirty m2)"
        "isMarked StylesPartition (dirty m2)"
    by auto
  from es(2) obtain d e where "es = [d, e]"
    by (cases es; cases "tl es") auto
  with m2 es have B: "\<exists>m' d e. perform 5 genIds ?op2 (mkManager tokenState) = Some (None, m') \<and>
          emitted m' = emitted (mkManager tokenState) @ [d, e] \<and>
          d_project (dirty m') \<and> d_styles (dirty m')"
    by (auto simp: isMarked_def owner_def)
  from A B show ?thesis by blast
qed

text \<open>
  Claim C3 as stated fails for \<open>updateTokenWithPropagation\<close>: the call below succeeds
  and emits two events.
\<close>

theorem updateToken_two_deltas_counterexample:
  "fst (updateTokenWithPropagation ''colors'' ''bg'' ''#000'' (mkManager tokenState)) = Inr 2 \<and>
   emitted (mkManager tokenState) = [] \<and>
   emitted (snd (updateTokenWithPropagation ''colors'' ''bg'' ''#000'' (mkManager tokenState)))
     = [TokensSet ''colors'' [(''bg'', ''#000'')],
        StylesBatch [(''.hero'', [(''color'', ''#000''), (''border'', ''1px solid #ffffff'')]),
                     (''.note'', [(''background'', ''#000#'')])]]"
  by code_simp

subsection \<open>Split files\<close>


















end
